(* ===== verification/Coverage_Prelude.thy ===== *)
theory Coverage_Prelude
  imports Complex_Main
begin

text \<open>
  Shared vocabulary of the development: the fact collections the component
  theories fill and unfold, the types that name paths and percentages, and the
  models of the JavaScript primitives the sources call on strings, arrays and
  \<^verbatim>\<open>Map\<close>s (\<^verbatim>\<open>String.prototype.split\<close>, \<^verbatim>\<open>Array.prototype.join\<close>, an array read
  past the end, \<^verbatim>\<open>Map.get\<close>/\<^verbatim>\<open>Map.set\<close> with insertion order), each with the
  lemmas the components share.

  Numbers: a JavaScript \<^verbatim>\<open>number\<close> that counts things is an \<^typ>\<open>int\<close>, a
  quotient of two counts is an exact \<^typ>\<open>rat\<close>. The rounding of IEEE doubles is
  not modelled; no count of the sources comes near $2^{53}$.
\<close>

section \<open>Fact collections\<close>

named_theorems cov_defs \<open>definitions of the coverage model that proofs unfold together\<close>
named_theorems cov_wf \<open>well-formedness facts: what each operation preserves\<close>

type_synonym segment = string
type_synonym tree_path = "string list"
type_synonym percent = rat

section \<open>Array reads\<close>

text \<open>\<^verbatim>\<open>xs[i]\<close> in JavaScript is \<^verbatim>\<open>undefined\<close> past the end; it never raises.\<close>

definition nth_opt :: "'a list \<Rightarrow> nat \<Rightarrow> 'a option" where
  "nth_opt xs i = (if i < length xs then Some (xs ! i) else None)"

lemma nth_opt_Nil [simp]: "nth_opt [] i = None"
  by (simp add: nth_opt_def)

lemma nth_opt_Cons_0 [simp]: "nth_opt (x # xs) 0 = Some x"
  by (simp add: nth_opt_def)

lemma nth_opt_Cons_Suc [simp]: "nth_opt (x # xs) (Suc i) = nth_opt xs i"
  by (simp add: nth_opt_def)

lemma nth_opt_eq_None_iff: "nth_opt xs i = None \<longleftrightarrow> length xs \<le> i"
  by (auto simp: nth_opt_def)

text \<open>The values of the entries that are there.\<close>

fun present :: "'a option list \<Rightarrow> 'a list" where
  "present [] = []"
| "present (None # os) = present os"
| "present (Some x # os) = x # present os"

lemma present_append [simp]: "present (xs @ ys) = present xs @ present ys"
  by (induction xs rule: present.induct) simp_all

lemma present_eq_Nil_iff: "present os = [] \<longleftrightarrow> (\<forall>x \<in> set os. x = None)"
  by (induction os rule: present.induct) simp_all

lemma set_present: "set (present os) = {x. Some x \<in> set os}"
  by (induction os rule: present.induct) auto

section \<open>split and join\<close>

text \<open>
  \<^verbatim>\<open>s.split(sep)\<close> for a one-character separator: the pieces between the
  separators, so that a string with $n$ separators has $n + 1$ pieces and the
  empty string has the one piece \<^verbatim>\<open>''\<close>. \<^verbatim>\<open>xs.join(sep)\<close> puts them together
  again; the empty array joins to the empty string.
\<close>

fun js_split :: "char \<Rightarrow> string \<Rightarrow> string list" where
  "js_split sep [] = [[]]"
| "js_split sep (c # cs) =
     (let r = js_split sep cs
      in if c = sep then [] # r else (c # hd r) # tl r)"

fun js_join :: "char \<Rightarrow> string list \<Rightarrow> string" where
  "js_join sep [] = []"
| "js_join sep [x] = x"
| "js_join sep (x # y # ys) = x @ sep # js_join sep (y # ys)"

lemma js_split_nonempty [simp]: "js_split sep s \<noteq> []"
  by (induction s) (auto simp: Let_def)

lemma js_split_length: "length (js_split sep s) = Suc (length (filter (\<lambda>c. c = sep) s))"
  by (induction s) (auto simp: Let_def)

lemma js_join_Cons: "xs \<noteq> [] \<Longrightarrow> js_join sep (x # xs) = x @ sep # js_join sep xs"
  by (cases xs) auto

lemma js_join_split [simp]: "js_join sep (js_split sep s) = s"
proof (induction s)
  case Nil
  show ?case by simp
next
  case (Cons c cs)
  obtain w ws where r: "js_split sep cs = w # ws"
    by (cases "js_split sep cs") auto
  with Cons.IH have cs: "js_join sep (w # ws) = cs" by simp
  show ?case
  proof (cases "c = sep")
    case True
    with r cs show ?thesis by (simp add: js_join_Cons)
  next
    case False
    with r cs show ?thesis by (cases ws) auto
  qed
qed

lemma js_split_pieces: "x \<in> set (js_split sep s) \<Longrightarrow> sep \<notin> set x"
proof (induction s arbitrary: x)
  case Nil
  then show ?case by simp
next
  case (Cons c cs)
  obtain w ws where r: "js_split sep cs = w # ws"
    by (cases "js_split sep cs") auto
  with Cons.IH have "sep \<notin> set w" and "\<And>y. y \<in> set ws \<Longrightarrow> sep \<notin> set y"
    by auto
  with Cons.prems r show ?case
    by (auto simp: Let_def split: if_splits)
qed

lemma js_split_no_sep: "sep \<notin> set x \<Longrightarrow> js_split sep x = [x]"
  by (induction x) (auto simp: Let_def)

lemma js_split_append_sep:
  "sep \<notin> set x \<Longrightarrow> js_split sep (x @ sep # rest) = x # js_split sep rest"
  by (induction x) (auto simp: Let_def)

lemma js_split_join:
  "xs \<noteq> [] \<Longrightarrow> (\<And>x. x \<in> set xs \<Longrightarrow> sep \<notin> set x) \<Longrightarrow> js_split sep (js_join sep xs) = xs"
proof (induction xs rule: js_join.induct)
  case (1 sep)
  then show ?case by simp
next
  case (2 sep x)
  then show ?case by (simp add: js_split_no_sep)
next
  case (3 sep x y ys)
  then show ?case by (simp add: js_split_append_sep)
qed

lemma js_split_hd_slash: "js_split sep (sep # s) = [] # js_split sep s"
  by simp

section \<open>Insertion-ordered maps\<close>

text \<open>
  A JavaScript \<^verbatim>\<open>Map\<close> iterates in insertion order and \<^verbatim>\<open>set\<close> on a key it
  already has keeps the key's place. The model is an association list with
  distinct keys; \<open>map_upsert k f d\<close> is
  \<^verbatim>\<open>m.set(k, f(m.has(k) ? m.get(k) : d))\<close>.
\<close>

fun map_upsert :: "'k \<Rightarrow> ('v \<Rightarrow> 'v) \<Rightarrow> 'v \<Rightarrow> ('k \<times> 'v) list \<Rightarrow> ('k \<times> 'v) list" where
  "map_upsert k f d [] = [(k, f d)]"
| "map_upsert k f d ((k', v) # kvs) =
     (if k' = k then (k, f v) # kvs else (k', v) # map_upsert k f d kvs)"

lemma map_of_map_upsert:
  "map_of (map_upsert k f d kvs) =
     (map_of kvs)(k \<mapsto> f (case map_of kvs k of None \<Rightarrow> d | Some v \<Rightarrow> v))"
  by (induction kvs) (auto simp: fun_eq_iff)

lemma map_of_map_upsert_same [simp]:
  "map_of (map_upsert k f d kvs) k = Some (f (case map_of kvs k of None \<Rightarrow> d | Some v \<Rightarrow> v))"
  by (simp add: map_of_map_upsert)

lemma map_of_map_upsert_other [simp]:
  "k' \<noteq> k \<Longrightarrow> map_of (map_upsert k f d kvs) k' = map_of kvs k'"
  by (simp add: map_of_map_upsert)

lemma keys_map_upsert:
  "map fst (map_upsert k f d kvs) =
     (if k \<in> fst ` set kvs then map fst kvs else map fst kvs @ [k])"
  by (induction kvs) force+

lemma set_keys_map_upsert [simp]:
  "fst ` set (map_upsert k f d kvs) = insert k (fst ` set kvs)"
proof -
  have "set (map fst (map_upsert k f d kvs)) = insert k (set (map fst kvs))"
    by (auto simp: keys_map_upsert)
  then show ?thesis by simp
qed

lemma distinct_map_upsert [cov_wf]:
  "distinct (map fst kvs) \<Longrightarrow> distinct (map fst (map_upsert k f d kvs))"
  by (simp add: keys_map_upsert)

lemma map_upsert_values:
  "(k', v') \<in> set (map_upsert k f d kvs) \<Longrightarrow>
     (k', v') \<in> set kvs \<or> (k' = k \<and> (v' = f d \<or> (\<exists>v. (k, v) \<in> set kvs \<and> v' = f v)))"
  by (induction kvs) (auto split: if_splits)

lemma length_map_upsert:
  "length (map_upsert k f d kvs) = (if k \<in> fst ` set kvs then length kvs else Suc (length kvs))"
proof -
  have "length (map fst (map_upsert k f d kvs)) =
      (if k \<in> fst ` set kvs then length kvs else Suc (length kvs))"
    by (simp add: keys_map_upsert)
  then show ?thesis by simp
qed

section \<open>Quotients of counts\<close>

lemma ratio_nonneg: "0 \<le> a \<Longrightarrow> 0 \<le> b \<Longrightarrow> (0::rat) \<le> of_int a / of_int b"
  by simp

lemma ratio_le_one: "a \<le> b \<Longrightarrow> 0 < b \<Longrightarrow> of_int a / of_int b \<le> (1::rat)"
  by simp

lemma ratio_eq_one_iff: "0 < b \<Longrightarrow> of_int a / of_int b = (1::rat) \<longleftrightarrow> a = b"
  by auto

lemma ratio_less_one_iff: "0 < b \<Longrightarrow> of_int a / of_int b < (1::rat) \<longleftrightarrow> a < b"
  by simp

section \<open>Round trip\<close>

text \<open>
  Joining the pieces of a split gives the string
  back, and splitting a join of pieces that do not hold the separator gives
  the pieces back: a path and its segments determine each other.
\<close>

theorem split_join_roundtrip:
  "js_join sep (js_split sep s) = s \<and>
   (xs \<noteq> [] \<and> (\<forall>x \<in> set xs. sep \<notin> set x) \<longrightarrow> js_split sep (js_join sep xs) = xs)"
  by (simp add: js_split_join)

theorem split_join_roundtrip_witness:
  "js_split CHR ''/'' ''/a/b'' = ['''', ''a'', ''b''] \<and>
   js_join CHR ''/'' ['''', ''a'', ''b''] = ''/a/b'' \<and>
   js_split CHR ''/'' (js_join CHR ''/'' ['''', ''a'', ''b'']) = ['''', ''a'', ''b'']"
  using split_join_roundtrip [of "CHR ''/''" "''/a/b''" "['''', ''a'', ''b'']"]
  by (simp add: Let_def)

end
