(* ===== verification/Prefix_Tree.thy ===== *)
theory Prefix_Tree
  imports Coverage_Prelude
begin

text \<open>
  The prefix tree \<^verbatim>\<open>WellDefinedPrefixTree\<close> of \<^verbatim>\<open>prefixTree.ts\<close>, which
  \<^verbatim>\<open>testCoverage.ts\<close> imports and which is not among the sources: the model
  follows the specification (sections 3 and 4.1) and the calls the sources
  make (\<^verbatim>\<open>insert\<close>, \<^verbatim>\<open>find\<close>, \<^verbatim>\<open>nodes\<close>, and the fields \<^verbatim>\<open>value\<close> and
  \<^verbatim>\<open>children\<close> of a node).

  A node holds an optional value and its children in a \<^verbatim>\<open>Map\<close> from path
  segment to node, here an association list in insertion order. The tree is
  its root node. Nodes are mutable objects in the source; the model addresses
  a node by its path from the root (\<open>subtree\<close> reads the node at a path,
  \<open>update_at\<close> writes it), so that a loop over node references becomes a loop
  over paths into the current tree.
\<close>

section \<open>Nodes\<close>

datatype 'v IPrefixTreeNode =
  Node (node_value: "'v option") (children: "(segment \<times> 'v IPrefixTreeNode) list")

type_synonym 'v WellDefinedPrefixTree = "'v IPrefixTreeNode"

lemma node_induct [case_names Node, induct type: IPrefixTreeNode]:
  assumes "\<And>v cs. (\<And>k c. (k, c) \<in> set cs \<Longrightarrow> P c) \<Longrightarrow> P (Node v cs)"
  shows "P t"
proof (induction t rule: IPrefixTreeNode.induct)
  case (Node v cs)
  show ?case
  proof (rule assms)
    fix k c
    assume "(k, c) \<in> set cs"
    then show "P c" by (rule Node) simp
  qed
qed

definition empty_tree :: "'v WellDefinedPrefixTree" where
  "empty_tree = Node None []"

section \<open>insert, find, nodes\<close>

text \<open>
  \<^verbatim>\<open>insert(key, value)\<close> walks down the key, creating the nodes that are
  missing, and stores the value at the end; a value already there is replaced.
\<close>

fun insert_tree :: "tree_path \<Rightarrow> 'v \<Rightarrow> 'v IPrefixTreeNode \<Rightarrow> 'v IPrefixTreeNode" where
  "insert_tree [] x (Node v cs) = Node (Some x) cs"
| "insert_tree (k # ks) x (Node v cs) =
     Node v (map_upsert k (insert_tree ks x) (Node None []) cs)"

text \<open>\<^verbatim>\<open>find(key)\<close>: the value at exactly that key, or \<^verbatim>\<open>undefined\<close>.\<close>

fun find_tree :: "tree_path \<Rightarrow> 'v IPrefixTreeNode \<Rightarrow> 'v option" where
  "find_tree [] (Node v cs) = v"
| "find_tree (k # ks) (Node v cs) =
     (case map_of cs k of None \<Rightarrow> None | Some c \<Rightarrow> find_tree ks c)"

text \<open>
  \<^verbatim>\<open>nodes\<close>: every position below the root, parents before children
  (pre-order), each with its path.
\<close>

fun nodes_of :: "tree_path \<Rightarrow> 'v IPrefixTreeNode \<Rightarrow> (tree_path \<times> 'v IPrefixTreeNode) list"
  and nodes_children ::
    "tree_path \<Rightarrow> (segment \<times> 'v IPrefixTreeNode) list \<Rightarrow> (tree_path \<times> 'v IPrefixTreeNode) list"
where
  "nodes_of p (Node v cs) = nodes_children p cs"
| "nodes_children p [] = []"
| "nodes_children p ((k, c) # rest) =
     (p @ [k], c) # nodes_of (p @ [k]) c @ nodes_children p rest"

definition nodes :: "'v WellDefinedPrefixTree \<Rightarrow> (tree_path \<times> 'v IPrefixTreeNode) list" where
  "nodes t = nodes_of [] t"

section \<open>Nodes as addresses\<close>

fun subtree :: "tree_path \<Rightarrow> 'v IPrefixTreeNode \<Rightarrow> 'v IPrefixTreeNode option" where
  "subtree [] n = Some n"
| "subtree (k # ks) (Node v cs) =
     (case map_of cs k of None \<Rightarrow> None | Some c \<Rightarrow> subtree ks c)"

fun update_child ::
  "segment \<Rightarrow> ('v \<Rightarrow> 'v) \<Rightarrow> (segment \<times> 'v) list \<Rightarrow> (segment \<times> 'v) list" where
  "update_child k f [] = []"
| "update_child k f ((k', c) # rest) =
     (if k' = k then (k', f c) # rest else (k', c) # update_child k f rest)"

fun update_at ::
  "tree_path \<Rightarrow> ('v IPrefixTreeNode \<Rightarrow> 'v IPrefixTreeNode) \<Rightarrow> 'v IPrefixTreeNode \<Rightarrow> 'v IPrefixTreeNode"
where
  "update_at [] f n = f n"
| "update_at (k # ks) f (Node v cs) = Node v (update_child k (update_at ks f) cs)"

text \<open>Keys of a \<^verbatim>\<open>Map\<close> are distinct, at every node.\<close>

fun wf_tree :: "'v IPrefixTreeNode \<Rightarrow> bool"
  and wf_children :: "(segment \<times> 'v IPrefixTreeNode) list \<Rightarrow> bool" where
  "wf_tree (Node v cs) \<longleftrightarrow> distinct (map fst cs) \<and> wf_children cs"
| "wf_children [] \<longleftrightarrow> True"
| "wf_children ((k, c) # rest) \<longleftrightarrow> wf_tree c \<and> wf_children rest"

lemma wf_children_iff: "wf_children cs \<longleftrightarrow> (\<forall>(k, c) \<in> set cs. wf_tree c)"
  by (induction cs) auto

lemma wf_tree_empty [cov_wf, simp]: "wf_tree empty_tree"
  by (simp add: empty_tree_def)

section \<open>find after insert\<close>

lemma find_tree_subtree:
  "find_tree ks t = (case subtree ks t of None \<Rightarrow> None | Some n \<Rightarrow> node_value n)"
  by (induction ks t rule: find_tree.induct) (auto split: option.splits)

lemma subtree_Nil_iff [simp]: "subtree [] t = Some n \<longleftrightarrow> n = t"
  by auto

lemma find_insert_same [simp]: "find_tree ks (insert_tree ks x t) = Some x"
  by (induction ks x t rule: insert_tree.induct) auto

lemma find_insert_other:
  "ks' \<noteq> ks \<Longrightarrow> find_tree ks' (insert_tree ks x t) = find_tree ks' t"
proof (induction ks x t arbitrary: ks' rule: insert_tree.induct)
  case (1 x v cs)
  then show ?case by (cases ks') auto
next
  case (2 k ks x v cs)
  show ?case
  proof (cases ks')
    case Nil
    then show ?thesis by simp
  next
    case (Cons k' ks'')
    show ?thesis
    proof (cases "k' = k")
      case True
      with Cons "2.prems" have "ks'' \<noteq> ks" by simp
      with True Cons "2.IH" show ?thesis
        by (cases ks'') (auto split: option.splits)
    next
      case False
      with Cons show ?thesis by simp
    qed
  qed
qed

text \<open>The tree implements a finite map from keys to values.\<close>

lemma find_insert:
  "find_tree ks' (insert_tree ks x t) = (if ks' = ks then Some x else find_tree ks' t)"
  by (simp add: find_insert_other)

lemma find_empty [simp]: "find_tree ks empty_tree = None"
  by (cases ks) (auto simp: empty_tree_def)

lemma wf_insert [cov_wf]: "wf_tree t \<Longrightarrow> wf_tree (insert_tree ks x t)"
proof (induction ks x t rule: insert_tree.induct)
  case (1 x v cs)
  then show ?case by simp
next
  case (2 k ks x v cs)
  from "2.prems" have d: "distinct (map fst cs)" and w: "\<forall>(k, c) \<in> set cs. wf_tree c"
    by (auto simp: wf_children_iff)
  have "wf_tree c'" if "(k', c') \<in> set (map_upsert k (insert_tree ks x) (Node None []) cs)"
    for k' c'
  proof -
    from that consider "(k', c') \<in> set cs" | "c' = insert_tree ks x (Node None [])"
      | c where "(k, c) \<in> set cs" and "c' = insert_tree ks x c"
      by (auto dest: map_upsert_values)
    then show ?thesis
    proof cases
      case 1
      with w show ?thesis by auto
    next
      case 2
      then show ?thesis using "2.IH" [of "Node None []"] by simp
    next
      case 3
      with w "2.IH" [of c] show ?thesis by auto
    qed
  qed
  with d show ?case
    by (auto simp: wf_children_iff intro: distinct_map_upsert)
qed

section \<open>Reading and writing at a path\<close>

lemma map_of_update_child:
  "map_of cs k = Some c \<Longrightarrow> map_of (update_child k g cs) k = Some (g c)"
  by (induction cs) (auto split: if_splits)

lemma update_child_id:
  "(\<And>c. map_of cs k = Some c \<Longrightarrow> g c = c) \<Longrightarrow> update_child k g cs = cs"
  by (induction cs) (auto split: if_splits)

lemma subtree_update_at:
  "subtree q t = Some n \<Longrightarrow> subtree q (update_at q f t) = Some (f n)"
proof (induction q arbitrary: t)
  case Nil
  then show ?case by simp
next
  case (Cons k q)
  obtain v cs where t: "t = Node v cs" by (cases t)
  with Cons.prems obtain c where c: "map_of cs k = Some c" and s: "subtree q c = Some n"
    by (auto split: option.splits)
  with Cons.IH [OF s] t show ?case by (simp add: map_of_update_child)
qed

lemma update_at_id:
  "(\<And>n. subtree q t = Some n \<Longrightarrow> f n = n) \<Longrightarrow> update_at q f t = t"
proof (induction q arbitrary: t)
  case Nil
  then show ?case by simp
next
  case (Cons k q)
  obtain v cs where t: "t = Node v cs" by (cases t)
  have "update_child k (update_at q f) cs = cs"
  proof (rule update_child_id)
    fix c
    assume "map_of cs k = Some c"
    with Cons.prems t show "update_at q f c = c" by (intro Cons.IH) simp
  qed
  with t show ?case by simp
qed

text \<open>
  In a well-formed tree \<open>nodes\<close> lists exactly the nodes that \<open>subtree\<close>
  reaches by a path that is not empty, each under its path.
\<close>

lemma nodes_subtree:
  "wf_tree t \<Longrightarrow> (q, n) \<in> set (nodes_of p t) \<Longrightarrow>
     \<exists>r. q = p @ r \<and> r \<noteq> [] \<and> subtree r t = Some n"
  "wf_children cs \<Longrightarrow> distinct (map fst cs) \<Longrightarrow> (q, n) \<in> set (nodes_children p cs) \<Longrightarrow>
     \<exists>k c r. q = p @ k # r \<and> map_of cs k = Some c \<and> subtree r c = Some n"
proof (induction p t and p cs rule: nodes_of_nodes_children.induct)
  case (1 p v cs)
  then obtain k c r where "q = p @ k # r" "map_of cs k = Some c" "subtree r c = Some n"
    by fastforce
  then show ?case by (intro exI [of _ "k # r"]) simp
next
  case (2 p)
  then show ?case by simp
next
  case (3 p k c rest)
  from "3.prems"(3) consider "q = p @ [k]" "n = c" | "(q, n) \<in> set (nodes_of (p @ [k]) c)"
    | "(q, n) \<in> set (nodes_children p rest)"
    by auto
  then show ?case
  proof cases
    case 1
    then show ?thesis by (intro exI [of _ k] exI [of _ c] exI [of _ "[]"]) simp
  next
    case 2
    with "3.IH"(1) "3.prems"(1) obtain r where "q = (p @ [k]) @ r" "subtree r c = Some n"
      by auto
    then show ?thesis by (intro exI [of _ k] exI [of _ c] exI [of _ r]) simp
  next
    case 3
    with "3.IH"(2) "3.prems"(1,2) obtain k' c' r
      where r: "q = p @ k' # r" "map_of rest k' = Some c'" "subtree r c' = Some n"
      by auto
    from r(2) have "k' \<in> fst ` set rest" by (force dest: map_of_SomeD)
    with "3.prems"(2) have "k' \<noteq> k" by auto
    with r show ?thesis by (intro exI [of _ k'] exI [of _ c'] exI [of _ r]) simp
  qed
qed

lemma subtree_nodes:
  "subtree r t = Some n \<Longrightarrow> r \<noteq> [] \<Longrightarrow> (p @ r, n) \<in> set (nodes_of p t)"
  "map_of cs k = Some c \<Longrightarrow> subtree r c = Some n \<Longrightarrow> (p @ k # r, n) \<in> set (nodes_children p cs)"
proof (induction p t and p cs arbitrary: r and r k c rule: nodes_of_nodes_children.induct)
  case (1 p v cs)
  then obtain k r' where r: "r = k # r'" by (cases r) auto
  with "1.prems" obtain c where "map_of cs k = Some c" "subtree r' c = Some n"
    by (auto split: option.splits)
  with "1.IH" r show ?case by simp
next
  case (2 p)
  then show ?case by simp
next
  case (3 p k' c' rest)
  show ?case
  proof (cases "k = k'")
    case True
    with "3.prems" have c: "c = c'" by simp
    show ?thesis
    proof (cases r)
      case Nil
      with "3.prems" True c show ?thesis by simp
    next
      case (Cons a r')
      with "3.IH"(1) [of r] "3.prems"(2) c True show ?thesis by simp
    qed
  next
    case False
    with "3.prems" "3.IH"(2) [of k c r] show ?thesis by simp
  qed
qed

lemma nodes_iff_subtree:
  "wf_tree t \<Longrightarrow> (q, n) \<in> set (nodes t) \<longleftrightarrow> q \<noteq> [] \<and> subtree q t = Some n"
  using nodes_subtree(1) [of t q n "[]"] subtree_nodes(1) [of q t n "[]"]
  by (auto simp: nodes_def)

section \<open>The tree as a map\<close>

text \<open>
  The tree implements a map from keys to values: \<^verbatim>\<open>find\<close> after
  \<^verbatim>\<open>insert(key, x)\<close> is the map before, updated at \<open>key\<close>.
\<close>

lemma insert_refines_map_update:
  "(\<lambda>ks. find_tree ks (insert_tree key x t)) = (\<lambda>ks. find_tree ks t)(key \<mapsto> x)"
  by (rule ext) (simp add: find_insert)

end
