(* ===== verification/Test_Types.thy ===== *)
theory Test_Types
  imports Coverage_Prelude
begin

text \<open>
  The data the coverage provider hands over, as \<^verbatim>\<open>testCoverage.ts\<close> imports it
  from \<^verbatim>\<open>testTypes.ts\<close> and \<^verbatim>\<open>uri.ts\<close>: covered counts with their zero and
  their sum, resource identifiers, and the opaque per-line detail entries.
  Those two files are not among the sources, so the definitions follow the
  specification (sections 3 and 4.2) and the way \<^verbatim>\<open>testCoverage.ts\<close> uses them.

  \<^verbatim>\<open>sumCounts(target, src)\<close> adds \<^verbatim>\<open>src\<close> into \<^verbatim>\<open>target\<close> in place; the model
  returns the new target. Counts form a commutative monoid under it, which is
  registered with the type classes so that \<^const>\<open>sum_list\<close> and its lemmas speak
  about aggregated counts.
\<close>

section \<open>Covered counts\<close>

datatype ICoveredCount = CoveredCount (covered: int) (total: int)

definition emptyCounts :: ICoveredCount where
  "emptyCounts = CoveredCount 0 0"

definition sumCounts :: "ICoveredCount \<Rightarrow> ICoveredCount \<Rightarrow> ICoveredCount" where
  "sumCounts target src =
     CoveredCount (covered target + covered src) (total target + total src)"

text \<open>The invariant of the data model: \<open>0 \<le> covered \<le> total\<close>.\<close>

definition count_ok :: "ICoveredCount \<Rightarrow> bool" where
  "count_ok cc \<longleftrightarrow> 0 \<le> covered cc \<and> covered cc \<le> total cc"

instantiation ICoveredCount :: comm_monoid_add
begin

definition zero_ICoveredCount :: ICoveredCount where
  "zero_ICoveredCount = emptyCounts"

definition plus_ICoveredCount :: "ICoveredCount \<Rightarrow> ICoveredCount \<Rightarrow> ICoveredCount" where
  "plus_ICoveredCount a b = sumCounts a b"

instance
proof
  fix a b c :: ICoveredCount
  show "a + b + c = a + (b + c)"
    by (simp add: plus_ICoveredCount_def sumCounts_def)
  show "a + b = b + a"
    by (simp add: plus_ICoveredCount_def sumCounts_def)
  show "0 + a = a"
    by (simp add: plus_ICoveredCount_def zero_ICoveredCount_def sumCounts_def emptyCounts_def)
qed

end

lemmas count_class_defs = plus_ICoveredCount_def zero_ICoveredCount_def

lemma sumCounts_plus: "sumCounts a b = a + b"
  by (simp add: plus_ICoveredCount_def)

lemma emptyCounts_zero: "emptyCounts = 0"
  by (simp add: zero_ICoveredCount_def)

lemma covered_sumCounts [simp]: "covered (sumCounts a b) = covered a + covered b"
  by (simp add: sumCounts_def)

lemma total_sumCounts [simp]: "total (sumCounts a b) = total a + total b"
  by (simp add: sumCounts_def)

lemma covered_emptyCounts [simp]: "covered emptyCounts = 0"
  by (simp add: emptyCounts_def)

lemma total_emptyCounts [simp]: "total emptyCounts = 0"
  by (simp add: emptyCounts_def)

lemma covered_plus [simp]: "covered (a + b) = covered a + covered b"
  by (simp add: plus_ICoveredCount_def)

lemma total_plus [simp]: "total (a + b) = total a + total b"
  by (simp add: plus_ICoveredCount_def)

lemma covered_zero [simp]: "covered 0 = 0"
  by (simp add: zero_ICoveredCount_def)

lemma total_zero [simp]: "total 0 = 0"
  by (simp add: zero_ICoveredCount_def)

lemma covered_sum_list [simp]: "covered (sum_list cs) = sum_list (map covered cs)"
  by (induction cs) auto

lemma total_sum_list [simp]: "total (sum_list cs) = sum_list (map total cs)"
  by (induction cs) auto

lemma count_eqI: "covered a = covered b \<Longrightarrow> total a = total b \<Longrightarrow> a = b"
  by (cases a, cases b) simp

lemma count_ok_emptyCounts [cov_wf, simp]: "count_ok emptyCounts"
  by (simp add: count_ok_def)

lemma count_ok_zero [cov_wf, simp]: "count_ok 0"
  by (simp add: count_ok_def)

lemma count_ok_sumCounts [cov_wf]: "count_ok a \<Longrightarrow> count_ok b \<Longrightarrow> count_ok (sumCounts a b)"
  by (simp add: count_ok_def)

lemma count_ok_plus [cov_wf]: "count_ok a \<Longrightarrow> count_ok b \<Longrightarrow> count_ok (a + b)"
  by (simp add: count_ok_def)

lemma count_ok_sum_list [cov_wf]: "(\<And>c. c \<in> set cs \<Longrightarrow> count_ok c) \<Longrightarrow> count_ok (sum_list cs)"
  by (induction cs) (auto intro: count_ok_plus)

lemma count_ok_total_nonneg: "count_ok c \<Longrightarrow> 0 \<le> total c"
  by (simp add: count_ok_def)

text \<open>The loop \<^verbatim>\<open>for (c of cs) sumCounts(acc, c)\<close> is the monoid sum.\<close>

lemma fold_sumCounts: "fold (\<lambda>c acc. sumCounts acc c) cs acc = acc + sum_list cs"
  by (induction cs arbitrary: acc) (auto simp: sumCounts_plus add.assoc)

section \<open>Resource identifiers and detail entries\<close>

text \<open>
  Of a \<^verbatim>\<open>URI\<close> the sources read \<^verbatim>\<open>scheme\<close>, \<^verbatim>\<open>authority\<close> and \<^verbatim>\<open>path\<close> only.
  \<^verbatim>\<open>CoverageDetails\<close> entries are never inspected by the sources: an entry is a
  token.
\<close>

record URI =
  scheme :: string
  authority :: string
  path :: string

datatype CoverageDetails = CoverageDetails nat

section \<open>The laws of summing\<close>

text \<open>
  Summing counts is associative and commutative, and the sum of two counts
  that satisfy \<open>0 \<le> covered \<le> total\<close> satisfies it.
\<close>

lemma sumCounts_laws:
  "sumCounts (sumCounts a b) c = sumCounts a (sumCounts b c) \<and>
   sumCounts a b = sumCounts b a \<and>
   (count_ok a \<and> count_ok b \<longrightarrow> count_ok (sumCounts a b))"
  by (simp add: sumCounts_plus ac_simps count_ok_plus)

end
