(* ===== verification/Promise_Cache.thy ===== *)
theory Promise_Cache
  imports Coverage_Prelude "HOL-Library.Multiset"
begin

text \<open>
  The two caches of \<^verbatim>\<open>testCoverage.ts\<close>, \<^verbatim>\<open>TestCoverage.fileCoverage\<close> (read by
  \<^verbatim>\<open>getAllFiles\<close>, lines 218--227) and \<^verbatim>\<open>FileCoverage._details\<close> (read by
  \<^verbatim>\<open>details\<close>, lines 343--352), follow one protocol:

  \<^verbatim>\<open>    this.slot ??= this.start(token);\<close>\<^smallskip>
  \<^verbatim>\<open>    try { return await this.slot; }\<close>\<^smallskip>
  \<^verbatim>\<open>    catch (e) { this.slot = undefined; throw e; }\<close>

  This theory models the protocol once, as a machine over the events that
  the run-to-completion execution of JavaScript makes atomic: a call, which
  runs up to the \<^verbatim>\<open>await\<close>; the settling of a promise by the provider; and a
  job of the microtask queue, which resumes the callers that one settling or
  one \<^verbatim>\<open>await\<close> of a settled promise has queued. A promise is named by the
  number it was created with. Calls may come between any two jobs, as any
  other microtask may make one.
\<close>

section \<open>State\<close>

datatype ('v, 'e) promise_state = Pending | Fulfilled 'v | Rejected 'e

datatype 'v deferred = Undefined | Ready 'v | Promise nat

text \<open>
  \<open>slot\<close> is the field; \<open>promises\<close> the promises made so far; \<open>waiters\<close> the
  callers suspended on a pending promise, in the order of their \<^verbatim>\<open>await\<close>;
  \<open>jobs\<close> the microtask queue, each job the callers it resumes with what they
  are resumed with; \<open>asked\<close> the arguments the provider was called with;
  \<open>returned\<close> what the calls that have ended returned or threw.
\<close>

record ('v, 'e, 'a) cache =
  slot :: "'v deferred"
  promises :: "('v, 'e) promise_state list"
  waiters :: "(nat \<times> nat) list"
  jobs :: "(nat \<times> ('e + 'v)) list list"
  asked :: "'a list"
  returned :: "(nat \<times> ('e + 'v)) list"

datatype ('v, 'e) event = Call nat | Settle nat "'e + 'v" | Run

definition fresh :: "'v deferred \<Rightarrow> ('v, 'e, 'a) cache" where
  "fresh d = \<lparr>slot = d, promises = [], waiters = [], jobs = [], asked = [], returned = []\<rparr>"

section \<open>Operations\<close>

text \<open>
  The right-hand side of \<^verbatim>\<open>??=\<close>: the provider is called with \<open>arg\<close> and the
  promise it returns is new and pending.
\<close>

definition start :: "'a \<Rightarrow> ('v, 'e, 'a) cache \<Rightarrow> ('v, 'e, 'a) cache" where
  "start arg s =
     s\<lparr>slot := Promise (length (promises s)),
       promises := promises s @ [Pending],
       asked := asked s @ [arg]\<rparr>"

text \<open>
  \<^verbatim>\<open>await this.slot\<close>: on a pending promise the caller waits; on a settled
  promise or a plain value its continuation is a job of its own.
\<close>

definition await_slot :: "nat \<Rightarrow> ('v, 'e, 'a) cache \<Rightarrow> ('v, 'e, 'a) cache" where
  "await_slot c s =
     (case slot s of
        Undefined \<Rightarrow> s
      | Ready v \<Rightarrow> s\<lparr>jobs := jobs s @ [[(c, Inr v)]]\<rparr>
      | Promise p \<Rightarrow>
          (case nth_opt (promises s) p of
             None \<Rightarrow> s
           | Some Pending \<Rightarrow> s\<lparr>waiters := waiters s @ [(p, c)]\<rparr>
           | Some (Fulfilled v) \<Rightarrow> s\<lparr>jobs := jobs s @ [[(c, Inr v)]]\<rparr>
           | Some (Rejected e) \<Rightarrow> s\<lparr>jobs := jobs s @ [[(c, Inl e)]]\<rparr>))"

text \<open>The call up to its \<^verbatim>\<open>await\<close>.\<close>

definition call :: "'a \<Rightarrow> nat \<Rightarrow> ('v, 'e, 'a) cache \<Rightarrow> ('v, 'e, 'a) cache" where
  "call arg c s = await_slot c (if slot s = Undefined then start arg s else s)"

text \<open>The call from its \<^verbatim>\<open>await\<close> on: it returns the value, or clears the slot and throws.\<close>

fun resume :: "nat \<times> ('e + 'v) \<Rightarrow> ('v, 'e, 'a) cache \<Rightarrow> ('v, 'e, 'a) cache" where
  "resume (c, Inr v) s = s\<lparr>returned := returned s @ [(c, Inr v)]\<rparr>"
| "resume (c, Inl e) s = s\<lparr>slot := Undefined, returned := returned s @ [(c, Inl e)]\<rparr>"

text \<open>
  A pending promise settles. The continuations of its waiters are queued
  together and in their order, and none of them makes a call: they are one
  job of the model.
\<close>

fun outcome_state :: "'e + 'v \<Rightarrow> ('v, 'e) promise_state" where
  "outcome_state (Inl e) = Rejected e"
| "outcome_state (Inr v) = Fulfilled v"

definition settle :: "nat \<Rightarrow> 'e + 'v \<Rightarrow> ('v, 'e, 'a) cache \<Rightarrow> ('v, 'e, 'a) cache" where
  "settle p r s =
     s\<lparr>promises := (promises s)[p := outcome_state r],
       waiters := filter (\<lambda>w. fst w \<noteq> p) (waiters s),
       jobs := jobs s @ [map (\<lambda>w. (snd w, r)) (filter (\<lambda>w. fst w = p) (waiters s))]\<rparr>"

text \<open>The machine: an event that cannot happen in a state has no successor.\<close>

fun step :: "'a \<Rightarrow> ('v, 'e) event \<Rightarrow> ('v, 'e, 'a) cache \<Rightarrow> ('v, 'e, 'a) cache option" where
  "step arg (Call c) s = Some (call arg c s)"
| "step arg (Settle p r) s =
     (if nth_opt (promises s) p = Some Pending then Some (settle p r s) else None)"
| "step arg Run s =
     (case jobs s of [] \<Rightarrow> None | job # rest \<Rightarrow> Some (fold resume job (s\<lparr>jobs := rest\<rparr>)))"

fun exec :: "'a \<Rightarrow> ('v, 'e) event list \<Rightarrow> ('v, 'e, 'a) cache \<Rightarrow> ('v, 'e, 'a) cache option" where
  "exec arg [] s = Some s"
| "exec arg (ev # evs) s = (case step arg ev s of None \<Rightarrow> None | Some s' \<Rightarrow> exec arg evs s')"

section \<open>What holds of a state\<close>

definition pending :: "('v, 'e, 'a) cache \<Rightarrow> nat \<Rightarrow> bool" where
  "pending s p \<longleftrightarrow> nth_opt (promises s) p = Some Pending"

fun is_rejected :: "('v, 'e) promise_state option \<Rightarrow> bool" where
  "is_rejected (Some (Rejected e)) = True"
| "is_rejected other = False"

text \<open>The slot holds a promise that has been rejected: the window of a late call.\<close>

definition slot_rejected :: "('v, 'e, 'a) cache \<Rightarrow> bool" where
  "slot_rejected s \<longleftrightarrow>
     (case slot s of Promise p \<Rightarrow> is_rejected (nth_opt (promises s) p) | other \<Rightarrow> False)"

text \<open>A job that resumes a caller with an error, and so clears the slot.\<close>

definition failing :: "(nat \<times> ('e + 'v)) list \<Rightarrow> bool" where
  "failing job \<longleftrightarrow> list_ex (\<lambda>cr. isl (snd cr)) job"

text \<open>How many constructions are in flight.\<close>

definition in_flight :: "('v, 'e, 'a) cache \<Rightarrow> nat" where
  "in_flight s = length (filter (\<lambda>q. q = Pending) (promises s))"

text \<open>
  The invariant of the protocol: the slot names a promise that exists; a
  pending promise is the one in the slot; callers wait on pending promises
  only; a job that fails is queued only while the slot holds the rejected
  promise, and there is one such job at most.
\<close>

definition coherent :: "('v, 'e, 'a) cache \<Rightarrow> bool" where
  "coherent s \<longleftrightarrow>
     (\<forall>p. slot s = Promise p \<longrightarrow> p < length (promises s)) \<and>
     (\<forall>p. pending s p \<longrightarrow> slot s = Promise p) \<and>
     (\<forall>w \<in> set (waiters s). pending s (fst w)) \<and>
     (\<forall>job \<in> set (jobs s). failing job \<longrightarrow> slot_rejected s) \<and>
     length (filter failing (jobs s)) \<le> 1"

lemma coherentI:
  assumes "\<And>p. slot s = Promise p \<Longrightarrow> p < length (promises s)"
    and "\<And>p. pending s p \<Longrightarrow> slot s = Promise p"
    and "\<And>w. w \<in> set (waiters s) \<Longrightarrow> pending s (fst w)"
    and "\<And>job. job \<in> set (jobs s) \<Longrightarrow> failing job \<Longrightarrow> slot_rejected s"
    and "length (filter failing (jobs s)) \<le> 1"
  shows "coherent s"
  using assms unfolding coherent_def by blast

lemma coherentD:
  assumes "coherent s"
  shows "slot s = Promise p \<Longrightarrow> p < length (promises s)"
    and "pending s p \<Longrightarrow> slot s = Promise p"
    and "w \<in> set (waiters s) \<Longrightarrow> pending s (fst w)"
    and "job \<in> set (jobs s) \<Longrightarrow> failing job \<Longrightarrow> slot_rejected s"
    and "length (filter failing (jobs s)) \<le> 1"
  using assms unfolding coherent_def by blast+

lemma coherent_fresh [cov_wf]: "coherent (fresh Undefined)" "coherent (fresh (Ready v))"
  by (simp_all add: coherent_def fresh_def pending_def)

lemma pending_unique: "coherent s \<Longrightarrow> pending s p \<Longrightarrow> pending s q \<Longrightarrow> p = q"
  by (metis coherentD(2) deferred.inject(2))

lemma pending_not_rejected: "pending s p \<Longrightarrow> slot s = Promise p \<Longrightarrow> \<not> slot_rejected s"
  by (simp add: pending_def slot_rejected_def)

lemma not_failing_Inr [simp]: "\<not> failing [(c, Inr v)]" "failing [(c, Inl e)]"
  by (simp_all add: failing_def)

lemma no_failing_jobs:
  "coherent s \<Longrightarrow> \<not> slot_rejected s \<Longrightarrow> job \<in> set (jobs s) \<Longrightarrow> \<not> failing job"
  by (auto dest: coherentD(4))

section \<open>Every event keeps the invariant\<close>

lemma nth_opt_append_one:
  "nth_opt (xs @ [x]) p = (if p = length xs then Some x else nth_opt xs p)"
  by (auto simp: nth_opt_def nth_append)

lemma nth_opt_update:
  "nth_opt (xs[p := x]) q = (if q = p \<and> p < length xs then Some x else nth_opt xs q)"
  by (auto simp: nth_opt_def)

lemma coherent_start:
  assumes "coherent s" and "slot s = Undefined"
  shows "coherent (start arg s)" and "pending (start arg s) (length (promises s))"
    and "slot (start arg s) = Promise (length (promises s))"
    and "jobs (start arg s) = jobs s"
proof -
  from assms have none: "\<not> pending s p" for p
    by (auto dest: coherentD(2))
  from assms have calm: "\<not> failing job" if "job \<in> set (jobs s)" for job
    using that by (auto dest!: coherentD(4) simp: slot_rejected_def)
  show "pending (start arg s) (length (promises s))"
    and "slot (start arg s) = Promise (length (promises s))" and "jobs (start arg s) = jobs s"
    by (simp_all add: start_def pending_def nth_opt_append_one)
  show "coherent (start arg s)"
  proof (rule coherentI)
    fix p assume "pending (start arg s) p"
    with none [of p] show "slot (start arg s) = Promise p"
      by (simp add: start_def pending_def nth_opt_append_one split: if_splits)
  next
    fix w assume "w \<in> set (waiters (start arg s))"
    with assms(1) none [of "fst w"] show "pending (start arg s) (fst w)"
      by (auto simp: start_def dest: coherentD(3))
  next
    fix job assume "job \<in> set (jobs (start arg s))" and "failing job"
    with calm [of job] show "slot_rejected (start arg s)" by (simp add: start_def)
  next
    show "length (filter failing (jobs (start arg s))) \<le> 1"
      using coherentD(5) [OF assms(1)] by (simp add: start_def)
  qed (simp add: start_def)
qed

lemma coherent_await_slot:
  assumes "coherent s" and "\<not> slot_rejected s"
  shows "coherent (await_slot c s)"
proof (rule coherentI)
  fix p assume "slot (await_slot c s) = Promise p"
  with assms(1) show "p < length (promises (await_slot c s))"
    by (auto simp: await_slot_def dest: coherentD(1)
        split: deferred.splits option.splits promise_state.splits)
next
  fix p assume "pending (await_slot c s) p"
  with assms(1) show "slot (await_slot c s) = Promise p"
    by (auto simp: await_slot_def pending_def dest: coherentD(2)
        split: deferred.splits option.splits promise_state.splits)
next
  fix w assume "w \<in> set (waiters (await_slot c s))"
  with assms(1) show "pending (await_slot c s) (fst w)"
    by (auto simp: await_slot_def pending_def dest: coherentD(3)
        split: deferred.splits option.splits promise_state.splits)
next
  fix job assume "job \<in> set (jobs (await_slot c s))" and "failing job"
  with assms show "slot_rejected (await_slot c s)"
    by (auto simp: await_slot_def slot_rejected_def dest: coherentD(4)
        split: deferred.splits option.splits promise_state.splits)
next
  from assms coherentD(5) [OF assms(1)]
  show "length (filter failing (jobs (await_slot c s))) \<le> 1"
    by (auto simp: await_slot_def slot_rejected_def
        split: deferred.splits option.splits promise_state.splits)
qed

lemma coherent_call [cov_wf]:
  assumes "coherent s" and "\<not> slot_rejected s"
  shows "coherent (call arg c s)"
proof (cases "slot s = Undefined")
  case True
  with assms(1) have "coherent (start arg s)" and "\<not> slot_rejected (start arg s)"
    using coherent_start [of s arg]
    by (simp_all add: pending_not_rejected)
  then show ?thesis by (simp add: call_def True coherent_await_slot)
next
  case False
  with assms show ?thesis by (simp add: call_def coherent_await_slot)
qed

lemma outcome_state_not_Pending [simp]: "outcome_state r \<noteq> Pending"
  by (cases r) simp_all

lemma coherent_settle [cov_wf]:
  assumes "coherent s" and "pending s p"
  shows "coherent (settle p r s)"
proof -
  from assms have slot: "slot s = Promise p" and len: "p < length (promises s)"
    by (auto dest: coherentD(1,2))
  with assms have calm: "\<not> failing job" if "job \<in> set (jobs s)" for job
    using that by (auto dest: coherentD(4) simp: pending_not_rejected)
  have only: "q = p" if "pending s q" for q
    using that assms(2) by (rule pending_unique [OF assms(1)])
  show ?thesis
  proof (rule coherentI)
    fix q assume "pending (settle p r s) q"
    with only [of q] len show "slot (settle p r s) = Promise q"
      by (auto simp: settle_def pending_def nth_opt_update split: if_splits)
  next
    fix w assume "w \<in> set (waiters (settle p r s))"
    with assms(1) only [of "fst w"] show "pending (settle p r s) (fst w)"
      by (auto simp: settle_def dest: coherentD(3))
  next
    fix job assume "job \<in> set (jobs (settle p r s))" and "failing job"
    with calm [of job] have "isl r"
      by (auto simp: settle_def failing_def list_ex_iff)
    with slot len show "slot_rejected (settle p r s)"
      by (cases r) (simp_all add: settle_def slot_rejected_def nth_opt_update)
  next
    from calm have "filter failing (jobs s) = []" by (simp add: filter_empty_conv)
    then show "length (filter failing (jobs (settle p r s))) \<le> 1"
      by (simp add: settle_def)
  qed (use slot len in \<open>simp add: settle_def\<close>)
qed

lemma fold_resume_fields [simp]:
  "slot (fold resume job s) = (if failing job then Undefined else slot s)"
  "promises (fold resume job s) = promises s"
  "waiters (fold resume job s) = waiters s"
  "jobs (fold resume job s) = jobs s"
  "asked (fold resume job s) = asked s"
  "returned (fold resume job s) = returned s @ job"
proof (induction job arbitrary: s)
  case Nil
  {
    case 1 show ?case by (simp add: failing_def)
  next
    case 2 show ?case by simp
  next
    case 3 show ?case by simp
  next
    case 4 show ?case by simp
  next
    case 5 show ?case by simp
  next
    case 6 show ?case by simp
  }
next
  case (Cons cr job)
  obtain c r where cr: "cr = (c, r)" by (cases cr)
  {
    case 1 show ?case by (cases r) (simp_all add: cr Cons failing_def)
  next
    case 2 show ?case by (cases r) (simp_all add: cr Cons)
  next
    case 3 show ?case by (cases r) (simp_all add: cr Cons)
  next
    case 4 show ?case by (cases r) (simp_all add: cr Cons)
  next
    case 5 show ?case by (cases r) (simp_all add: cr Cons)
  next
    case 6 show ?case by (cases r) (simp_all add: cr Cons)
  }
qed

lemma coherent_run [cov_wf]:
  assumes "coherent s" and "jobs s = job # rest"
  shows "coherent (fold resume job (s\<lparr>jobs := rest\<rparr>))"
proof -
  from assms have rejected: "slot_rejected s" if "failing job"
    using that by (auto dest: coherentD(4))
  from assms coherentD(5) [OF assms(1)]
  have one: "\<not> failing job'" if "failing job" and "job' \<in> set rest" for job'
    using that by (auto simp: filter_empty_conv split: if_splits)
  have stay: "\<not> pending s q" if "failing job" for q
    using rejected [OF that] assms(1)
    by (auto dest!: coherentD(2) simp: pending_def slot_rejected_def)
  show ?thesis
  proof (rule coherentI)
    fix p assume "slot (fold resume job (s\<lparr>jobs := rest\<rparr>)) = Promise p"
    with assms(1) show "p < length (promises (fold resume job (s\<lparr>jobs := rest\<rparr>)))"
      by (auto dest: coherentD(1) split: if_splits)
  next
    fix p assume "pending (fold resume job (s\<lparr>jobs := rest\<rparr>)) p"
    then have "pending s p" by (simp add: pending_def)
    with stay [of p] assms(1) show "slot (fold resume job (s\<lparr>jobs := rest\<rparr>)) = Promise p"
      by (auto dest: coherentD(2))
  next
    fix w assume "w \<in> set (waiters (fold resume job (s\<lparr>jobs := rest\<rparr>)))"
    with assms(1) show "pending (fold resume job (s\<lparr>jobs := rest\<rparr>)) (fst w)"
      by (auto simp: pending_def dest: coherentD(3))
  next
    fix job' assume "job' \<in> set (jobs (fold resume job (s\<lparr>jobs := rest\<rparr>)))" and f: "failing job'"
    then have in_rest: "job' \<in> set rest" by simp
    with f one [of job'] have "\<not> failing job" by blast
    moreover from in_rest f assms have "slot_rejected s" by (auto dest: coherentD(4))
    ultimately show "slot_rejected (fold resume job (s\<lparr>jobs := rest\<rparr>))"
      by (simp add: slot_rejected_def split: deferred.splits)
  next
    from assms coherentD(5) [OF assms(1)]
    show "length (filter failing (jobs (fold resume job (s\<lparr>jobs := rest\<rparr>)))) \<le> 1"
      by (simp split: if_splits)
  qed
qed

section \<open>Runs\<close>

text \<open>
  The states that are reached when no call comes in the window between the
  rejection of the promise in the slot and the job that clears the slot.
\<close>

inductive_set settled_runs :: "'a \<Rightarrow> ('v, 'e, 'a) cache \<Rightarrow> ('v, 'e, 'a) cache set"
  for arg :: 'a and s0 :: "('v, 'e, 'a) cache" where
  init: "s0 \<in> settled_runs arg s0"
| call: "s \<in> settled_runs arg s0 \<Longrightarrow> \<not> slot_rejected s \<Longrightarrow> call arg c s \<in> settled_runs arg s0"
| settle: "s \<in> settled_runs arg s0 \<Longrightarrow> pending s p \<Longrightarrow> settle p r s \<in> settled_runs arg s0"
| run: "s \<in> settled_runs arg s0 \<Longrightarrow> jobs s = job # rest \<Longrightarrow>
     fold resume job (s\<lparr>jobs := rest\<rparr>) \<in> settled_runs arg s0"

text \<open>The same condition on a list of events, as a function.\<close>

fun calm :: "'a \<Rightarrow> ('v, 'e) event list \<Rightarrow> ('v, 'e, 'a) cache \<Rightarrow> bool" where
  "calm arg [] s = True"
| "calm arg (Call c # evs) s = (\<not> slot_rejected s \<and> calm arg evs (call arg c s))"
| "calm arg (ev # evs) s = (case step arg ev s of None \<Rightarrow> True | Some s' \<Rightarrow> calm arg evs s')"

lemma step_cases:
  assumes "step arg ev s = Some s'"
  obtains c where "ev = Call c" and "s' = call arg c s"
  | p r where "ev = Settle p r" and "pending s p" and "s' = settle p r s"
  | job rest where "ev = Run" and "jobs s = job # rest"
      and "s' = fold resume job (s\<lparr>jobs := rest\<rparr>)"
  using assms by (cases ev) (auto simp: pending_def split: if_splits list.splits)

lemma exec_settled_runs:
  "exec arg evs s = Some s' \<Longrightarrow> calm arg evs s \<Longrightarrow> s \<in> settled_runs arg s0
    \<Longrightarrow> s' \<in> settled_runs arg s0"
proof (induction evs arbitrary: s)
  case Nil
  then show ?case by simp
next
  case (Cons ev evs)
  from Cons.prems(1) obtain s1 where s1: "step arg ev s = Some s1" and rest: "exec arg evs s1 = Some s'"
    by (auto split: option.splits)
  from s1 show ?case
  proof (cases rule: step_cases)
    case (1 c)
    with Cons.prems(2,3) have "s1 \<in> settled_runs arg s0" and "calm arg evs s1"
      by (auto intro: settled_runs.call)
    with rest show ?thesis by (intro Cons.IH)
  next
    case (2 p r)
    with Cons.prems(2,3) s1 have "s1 \<in> settled_runs arg s0" and "calm arg evs s1"
      by (auto intro: settled_runs.settle)
    with rest show ?thesis by (intro Cons.IH)
  next
    case (3 job rest')
    with Cons.prems(2,3) s1 have "s1 \<in> settled_runs arg s0" and "calm arg evs s1"
      by (auto intro: settled_runs.run)
    with rest show ?thesis by (intro Cons.IH)
  qed
qed

lemma settled_runs_coherent:
  "s \<in> settled_runs arg s0 \<Longrightarrow> coherent s0 \<Longrightarrow> coherent s"
  by (induction rule: settled_runs.induct) (simp_all add: cov_wf)

text \<open>One promise in flight at most.\<close>

lemma filter_at_most_one:
  "(\<And>i j. i < length xs \<Longrightarrow> j < length xs \<Longrightarrow> P (xs ! i) \<Longrightarrow> P (xs ! j) \<Longrightarrow> i = j)
    \<Longrightarrow> length (filter P xs) \<le> 1"
proof (induction xs)
  case Nil
  show ?case by simp
next
  case (Cons x xs)
  have tail: "length (filter P xs) \<le> 1"
  proof (rule Cons.IH)
    fix i j assume "i < length xs" "j < length xs" "P (xs ! i)" "P (xs ! j)"
    with Cons.prems [of "Suc i" "Suc j"] show "i = j" by simp
  qed
  show ?case
  proof (cases "P x")
    case True
    have "\<not> P y" if "y \<in> set xs" for y
    proof
      assume "P y"
      from that obtain j where "j < length xs" "xs ! j = y" by (auto simp: in_set_conv_nth)
      with Cons.prems [of 0 "Suc j"] True \<open>P y\<close> show False by simp
    qed
    then have "filter P xs = []" by (simp add: filter_empty_conv)
    with True show ?thesis by simp
  next
    case False
    with tail show ?thesis by simp
  qed
qed

lemma coherent_in_flight: "coherent s \<Longrightarrow> in_flight s \<le> 1"
  unfolding in_flight_def
proof (rule filter_at_most_one)
  fix i j
  assume "coherent s" "i < length (promises s)" "j < length (promises s)"
    "promises s ! i = Pending" "promises s ! j = Pending"
  then show "i = j"
    by (intro pending_unique [of s]) (simp_all add: pending_def nth_opt_def)
qed

section \<open>Runs in pieces\<close>

lemma call_pending:
  "slot s = Promise p \<Longrightarrow> pending s p \<Longrightarrow> call arg c s = s\<lparr>waiters := waiters s @ [(p, c)]\<rparr>"
  by (simp add: call_def await_slot_def pending_def)

lemma call_Undefined:
  "slot s = Undefined \<Longrightarrow>
     call arg c s = (start arg s)\<lparr>waiters := waiters s @ [(length (promises s), c)]\<rparr>"
  by (simp add: call_def await_slot_def start_def nth_opt_append_one)

lemma exec_append:
  "exec arg (xs @ ys) s = (case exec arg xs s of None \<Rightarrow> None | Some s' \<Rightarrow> exec arg ys s')"
  by (induction xs arbitrary: s) (auto split: option.splits)

lemma exec_snoc:
  "exec arg evs s0 = Some s \<Longrightarrow> step arg ev s = Some s' \<Longrightarrow> exec arg (evs @ [ev]) s0 = Some s'"
  by (simp add: exec_append)

text \<open>Calls while the promise of the slot is pending only queue up behind it.\<close>

lemma exec_calls_pending:
  "slot s = Promise p \<Longrightarrow> pending s p \<Longrightarrow>
     exec arg (map Call cs) s = Some (s\<lparr>waiters := waiters s @ map (Pair p) cs\<rparr>)"
proof (induction cs arbitrary: s)
  case Nil
  show ?case by simp
next
  case (Cons c cs)
  let ?s = "s\<lparr>waiters := waiters s @ [(p, c)]\<rparr>"
  from Cons.prems have "slot ?s = Promise p" and "pending ?s p" by (simp_all add: pending_def)
  from Cons.IH [OF this] Cons.prems show ?case by (simp add: call_pending)
qed

text \<open>Running the whole queue resumes every queued caller, in order.\<close>

definition run_all :: "('v, 'e, 'a) cache \<Rightarrow> ('v, 'e, 'a) cache" where
  "run_all s = fold (fold resume) (jobs s) (s\<lparr>jobs := []\<rparr>)"

lemma fold_resume_jobs_update:
  "fold resume job (s\<lparr>jobs := js\<rparr>) = (fold resume job s)\<lparr>jobs := js\<rparr>"
proof (induction job arbitrary: s)
  case Nil
  show ?case by simp
next
  case (Cons cr job)
  obtain c r where cr: "cr = (c, r)" by (cases cr)
  have "resume (c, r) (s\<lparr>jobs := js\<rparr>) = (resume (c, r) s)\<lparr>jobs := js\<rparr>" by (cases r) simp_all
  with Cons.IH [of "resume (c, r) s"] show ?case by (simp add: cr)
qed

lemma exec_runs: "exec arg (replicate (length (jobs s)) Run) s = Some (run_all s)"
proof (induction "jobs s" arbitrary: s)
  case Nil
  then show ?case by (simp add: run_all_def)
next
  case (Cons job rest)
  let ?s = "fold resume job (s\<lparr>jobs := rest\<rparr>)"
  from Cons.hyps(2) [symmetric] have step: "step arg Run s = Some ?s" by simp
  have "rest = jobs ?s" by simp
  then have "exec arg (replicate (length (jobs ?s)) Run) ?s = Some (run_all ?s)"
    by (rule Cons.hyps(1))
  moreover have "run_all ?s = run_all s"
    using Cons.hyps(2) [symmetric] by (simp add: run_all_def fold_resume_jobs_update)
  ultimately show ?case using step Cons.hyps(2) [symmetric] by simp
qed

lemma fold_resume_eq:
  "fold resume job s =
     s\<lparr>slot := (if failing job then Undefined else slot s), returned := returned s @ job\<rparr>"
  by (rule cache.equality) simp_all

lemma fold_jobs_fields:
  "promises (fold (fold resume) js t) = promises t \<and>
   waiters (fold (fold resume) js t) = waiters t \<and>
   jobs (fold (fold resume) js t) = jobs t \<and>
   asked (fold (fold resume) js t) = asked t \<and>
   returned (fold (fold resume) js t) = returned t @ concat js \<and>
   slot (fold (fold resume) js t) = (if list_ex failing js then Undefined else slot t)"
  by (induction js arbitrary: t) simp_all

lemma run_all_fields [simp]:
  "promises (run_all s) = promises s"
  "waiters (run_all s) = waiters s"
  "jobs (run_all s) = []"
  "asked (run_all s) = asked s"
  "returned (run_all s) = returned s @ concat (jobs s)"
  "slot (run_all s) = (if list_ex failing (jobs s) then Undefined else slot s)"
  using fold_jobs_fields [of "jobs s" "s\<lparr>jobs := []\<rparr>"] by (simp_all add: run_all_def)

text \<open>
  One round: callers \<open>c # cs\<close> find the slot empty, the provider settles the
  promise with \<open>r\<close>, and the job runs.
\<close>

definition one_round :: "nat list \<Rightarrow> 'e + 'v \<Rightarrow> ('v, 'e, 'a) cache \<Rightarrow> ('v, 'e) event list" where
  "one_round cs r s = map Call cs @ [Settle (length (promises s)) r, Run]"

lemma failing_map [simp]: "failing ((c, r) # map (\<lambda>c. (c, r)) cs) \<longleftrightarrow> isl r"
  by (auto simp: failing_def list_ex_iff)

lemma exec_round:
  assumes "slot s = Undefined" and "waiters s = []" and "jobs s = []"
  shows "exec arg (one_round (c # cs) r s) s =
     Some (s\<lparr>slot := (if isl r then Undefined else Promise (length (promises s))),
            promises := promises s @ [outcome_state r],
            asked := asked s @ [arg],
            returned := returned s @ map (\<lambda>c. (c, r)) (c # cs)\<rparr>)"
proof -
  let ?p = "length (promises s)"
  let ?s1 = "call arg c s"
  let ?s2 = "?s1\<lparr>waiters := waiters ?s1 @ map (Pair ?p) cs\<rparr>"
  have s1: "slot ?s1 = Promise ?p" "pending ?s1 ?p" "waiters ?s1 = [(?p, c)]"
    "promises ?s1 = promises s @ [Pending]" "jobs ?s1 = []" "asked ?s1 = asked s @ [arg]"
    "returned ?s1 = returned s"
    using assms by (simp_all add: call_Undefined start_def pending_def nth_opt_append_one)
  have calls: "exec arg (map Call (c # cs)) s = Some ?s2"
    using exec_calls_pending [OF s1(1,2), of arg cs] by simp
  have "pending ?s2 ?p" using s1(2) by (simp add: pending_def)
  then have settle: "step arg (Settle ?p r) ?s2 = Some (settle ?p r ?s2)"
    by (simp add: pending_def)
  have job: "jobs (settle ?p r ?s2) = [map (\<lambda>c. (c, r)) (c # cs)]"
    by (simp add: settle_def s1 comp_def)
  then have run: "step arg Run (settle ?p r ?s2) =
      Some (fold resume (map (\<lambda>c. (c, r)) (c # cs)) ((settle ?p r ?s2)\<lparr>jobs := []\<rparr>))"
    by simp
  have "exec arg (one_round (c # cs) r s) s =
      Some (fold resume (map (\<lambda>c. (c, r)) (c # cs)) ((settle ?p r ?s2)\<lparr>jobs := []\<rparr>))"
    unfolding one_round_def exec_append calls using settle run by simp
  also have "fold resume (map (\<lambda>c. (c, r)) (c # cs)) ((settle ?p r ?s2)\<lparr>jobs := []\<rparr>) =
      s\<lparr>slot := (if isl r then Undefined else Promise ?p),
        promises := promises s @ [outcome_state r],
        asked := asked s @ [arg],
        returned := returned s @ map (\<lambda>c. (c, r)) (c # cs)\<rparr>"
    unfolding fold_resume_eq using assms s1 by (intro cache.equality) (simp_all add: settle_def)
  finally show ?thesis .
qed

section \<open>A value in the slot stays\<close>

definition holds :: "('v, 'e, 'a) cache \<Rightarrow> 'v \<Rightarrow> bool" where
  "holds s v \<longleftrightarrow>
     (case slot s of
        Undefined \<Rightarrow> False
      | Ready v' \<Rightarrow> v' = v
      | Promise p \<Rightarrow> nth_opt (promises s) p = Some (Fulfilled v))"

lemma holds_cong: "slot s' = slot s \<Longrightarrow> promises s' = promises s \<Longrightarrow> holds s' v = holds s v"
  by (simp add: holds_def split: deferred.splits)

lemma holds_not_rejected: "holds s v \<Longrightarrow> \<not> slot_rejected s"
  by (auto simp: holds_def slot_rejected_def split: deferred.splits)

lemma holds_not_pending: "coherent s \<Longrightarrow> holds s v \<Longrightarrow> \<not> pending s p"
  by (auto simp: holds_def pending_def dest!: coherentD(2))

lemma holds_call:
  "holds s v \<Longrightarrow> call arg c s = s\<lparr>jobs := jobs s @ [[(c, Inr v)]]\<rparr>"
  by (auto simp: holds_def call_def await_slot_def split: deferred.splits)

lemma settled_runs_keep:
  assumes "s' \<in> settled_runs arg s" and "coherent s" and "holds s v"
  shows "slot s' = slot s \<and> promises s' = promises s \<and> asked s' = asked s"
  using assms
proof (induction rule: settled_runs.induct)
  case init
  show ?case by simp
next
  case (call s1 c)
  then have "holds s1 v" using holds_cong [of s1 s v] by simp
  with call show ?case by (simp add: holds_call [of s1 v])
next
  case (settle s1 p r)
  then have "coherent s1" and "holds s1 v"
    using holds_cong [of s1 s v] by (simp_all add: settled_runs_coherent)
  with settle.hyps(2) show ?case by (simp add: holds_not_pending)
next
  case (run s1 job rest)
  then have c: "coherent s1" and h: "holds s1 v"
    using holds_cong [of s1 s v] by (simp_all add: settled_runs_coherent)
  with run.hyps(2) have "\<not> failing job"
    by (intro no_failing_jobs [of s1]) (simp_all add: holds_not_rejected)
  with run show ?case by simp
qed

text \<open>While a value is held every run is one of the runs above.\<close>

lemma holds_calm:
  "coherent s \<Longrightarrow> holds s v \<Longrightarrow> calm arg evs s"
proof (induction evs arbitrary: s)
  case Nil
  show ?case by simp
next
  case (Cons ev evs)
  have next_ok: "coherent s' \<and> holds s' v" if st: "step arg ev s = Some s'" and nr: "\<not> slot_rejected s" for s'
  proof -
    have "s' \<in> settled_runs arg s"
      using st settled_runs.call [OF settled_runs.init nr]
      by (cases rule: step_cases) (auto intro: settled_runs.intros)
    with Cons.prems show ?thesis
      using settled_runs_keep [of s' arg s v] holds_cong [of s' s v]
      by (simp add: settled_runs_coherent)
  qed
  from Cons.prems have nr: "\<not> slot_rejected s" by (simp add: holds_not_rejected)
  show ?case
  proof (cases ev)
    case (Call c)
    with next_ok [of "call arg c s"] nr Cons.IH show ?thesis by simp
  next
    case (Settle p r)
    with next_ok nr Cons.IH show ?thesis by (auto split: option.splits)
  next
    case Run
    with next_ok nr Cons.IH show ?thesis by (auto split: option.splits)
  qed
qed

lemma holds_exec:
  assumes "coherent s" and "holds s v" and "exec arg evs s = Some s'"
  shows "slot s' = slot s" and "promises s' = promises s" and "asked s' = asked s"
    and "holds s' v"
proof -
  from assms(3) holds_calm [OF assms(1,2)] have "s' \<in> settled_runs arg s"
    by (rule exec_settled_runs) (rule settled_runs.init)
  from settled_runs_keep [OF this assms(1,2)]
  show "slot s' = slot s" and "promises s' = promises s" and "asked s' = asked s" by simp_all
  with assms(2) show "holds s' v" by (simp add: holds_cong [of s' s v])
qed

section \<open>Draining\<close>

text \<open>
  The events that let every caller return: the provider settles every
  promise that is pending, and the queue is run to its end.
\<close>

definition pendings :: "('v, 'e, 'a) cache \<Rightarrow> nat list" where
  "pendings s = filter (\<lambda>p. nth_opt (promises s) p = Some Pending) [0..<length (promises s)]"

definition drain :: "'e + 'v \<Rightarrow> ('v, 'e, 'a) cache \<Rightarrow> ('v, 'e) event list" where
  "drain r s =
     map (\<lambda>p. Settle p r) (pendings s) @ replicate (length (jobs s) + length (pendings s)) Run"

lemma pendings_iff: "p \<in> set (pendings s) \<longleftrightarrow> pending s p"
  by (auto simp: pendings_def pending_def nth_opt_def)

section \<open>Every caller is accounted for\<close>

text \<open>
  \<open>callers\<close> are the calls of a run. \<open>owed\<close> counts the callers of a state with
  their multiplicity: those that have returned or thrown, those a job of the
  queue will resume, and those that wait on a promise. \<open>tracked\<close> is what
  every run keeps, late calls included: the slot names a promise that
  exists, callers wait on pending promises only, a pending promise has a
  caller that waits on it (the one that started it, at least), and while the
  slot holds a rejected promise a job that will clear the slot is queued.
\<close>

fun callers :: "('v, 'e) event list \<Rightarrow> nat list" where
  "callers [] = []"
| "callers (Call c # evs) = c # callers evs"
| "callers (ev # evs) = callers evs"

definition owed :: "('v, 'e, 'a) cache \<Rightarrow> nat multiset" where
  "owed s = mset (map fst (returned s)) + mset (map fst (concat (jobs s))) + mset (map snd (waiters s))"

definition tracked :: "('v, 'e, 'a) cache \<Rightarrow> bool" where
  "tracked s \<longleftrightarrow>
     (\<forall>p. slot s = Promise p \<longrightarrow> p < length (promises s)) \<and>
     (\<forall>w \<in> set (waiters s). pending s (fst w)) \<and>
     (\<forall>p. pending s p \<longrightarrow> p \<in> fst ` set (waiters s)) \<and>
     (slot_rejected s \<longrightarrow> list_ex failing (jobs s))"

lemma tracked_fresh: "tracked (fresh Undefined)" "tracked (fresh (Ready v))"
  by (simp_all add: tracked_def fresh_def pending_def slot_rejected_def)

lemma pending_start: "pending (start arg s) p \<longleftrightarrow> p = length (promises s) \<or> pending s p"
  by (auto simp: start_def pending_def nth_opt_def nth_append)

lemma tracked_start:
  assumes "tracked s" and "slot s = Undefined"
  shows "tracked ((start arg s)\<lparr>waiters := waiters s @ [(length (promises s), c)]\<rparr>)"
proof -
  let ?t = "(start arg s)\<lparr>waiters := waiters s @ [(length (promises s), c)]\<rparr>"
  have p: "pending ?t q \<longleftrightarrow> q = length (promises s) \<or> pending s q" for q
    using pending_start [of arg s q] by (simp add: pending_def)
  have "\<not> slot_rejected ?t"
    by (simp add: start_def slot_rejected_def nth_opt_append_one)
  with assms(1) show ?thesis
    unfolding tracked_def p by (auto simp: start_def)
qed

lemma tracked_await:
  assumes "tracked s" and "slot s \<noteq> Undefined"
  shows "tracked (await_slot c s)"
proof -
  have p: "pending (await_slot c s) q = pending s q" for q
    by (simp add: await_slot_def pending_def
        split: deferred.splits option.splits promise_state.splits)
  from assms show ?thesis
    unfolding tracked_def p
    by (auto simp: await_slot_def slot_rejected_def failing_def pending_def
        split: deferred.splits option.splits promise_state.splits)
qed

lemma owed_await:
  assumes "tracked s" and "slot s \<noteq> Undefined"
  shows "owed (await_slot c s) = owed s + {#c#}"
  using assms
  by (auto simp: tracked_def owed_def await_slot_def nth_opt_def
      split: deferred.splits option.splits promise_state.splits)

lemma tracked_call: "tracked s \<Longrightarrow> tracked (call arg c s)"
proof (cases "slot s = Undefined")
  case True
  then show "tracked s \<Longrightarrow> tracked (call arg c s)"
    by (simp add: call_Undefined tracked_start)
next
  case False
  then show "tracked s \<Longrightarrow> tracked (call arg c s)"
    by (simp add: call_def tracked_await)
qed

lemma owed_call: "tracked s \<Longrightarrow> owed (call arg c s) = owed s + {#c#}"
proof (cases "slot s = Undefined")
  case True
  then show ?thesis by (simp add: call_Undefined owed_def start_def)
next
  case False
  then show "tracked s \<Longrightarrow> owed (call arg c s) = owed s + {#c#}"
    by (simp add: call_def owed_await)
qed

lemma pending_settle: "pending (settle p r s) q \<longleftrightarrow> q \<noteq> p \<and> pending s q"
  by (cases "q = p") (auto simp: settle_def pending_def nth_opt_def)

lemma tracked_settle:
  assumes "tracked s" and "pending s p"
  shows "tracked (settle p r s)"
proof -
  from assms obtain c where w: "(p, c) \<in> set (waiters s)"
    by (auto simp: tracked_def)
  have rej: "list_ex failing (jobs (settle p r s))" if "slot_rejected (settle p r s)"
  proof (cases "slot_rejected s")
    case True
    with assms(1) show ?thesis by (simp add: tracked_def settle_def)
  next
    case False
    with that assms(2) have "slot s = Promise p" and "isl r"
      by (auto simp: slot_rejected_def settle_def nth_opt_update pending_def
          split: deferred.splits if_splits) (cases r; simp)+
    with w show ?thesis
      by (auto simp: settle_def failing_def list_ex_iff)
  qed
  from assms(1) show ?thesis
    unfolding tracked_def pending_settle using rej
    by (auto simp: settle_def)
qed

lemma owed_settle: "owed (settle p r s) = owed s"
proof -
  have "mset (map snd (filter (\<lambda>w. fst w = p) (waiters s))) +
      mset (map snd (filter (\<lambda>w. fst w \<noteq> p) (waiters s))) = mset (map snd (waiters s))"
    by (simp add: mset_filter flip: image_mset_union)
  then show ?thesis
    by (simp add: owed_def settle_def comp_def ac_simps)
qed

lemma tracked_run:
  assumes "tracked s" and "jobs s = job # rest"
  shows "tracked (fold resume job (s\<lparr>jobs := rest\<rparr>))"
    and "owed (fold resume job (s\<lparr>jobs := rest\<rparr>)) = owed s"
  using assms
  by (auto simp: tracked_def owed_def pending_def slot_rejected_def
      split: deferred.splits if_splits)

lemma tracked_step:
  assumes "step arg ev s = Some s'" and "tracked s"
  shows "tracked s'" and "owed s' = owed s + mset (callers [ev])"
  using assms(1)
  by (cases rule: step_cases;
      simp add: assms(2) tracked_call owed_call tracked_settle owed_settle tracked_run)+

lemma callers_append [simp]: "callers (xs @ ys) = callers xs @ callers ys"
  by (induction xs rule: callers.induct) simp_all

lemma tracked_exec:
  assumes "exec arg evs s = Some s'" and "tracked s"
  shows "tracked s'" and "owed s' = owed s + mset (callers evs)"
proof -
  have "tracked s' \<and> owed s' = owed s + mset (callers evs)"
    using assms
  proof (induction evs arbitrary: s)
    case Nil
    then show ?case by simp
  next
    case (Cons ev evs)
    from Cons.prems(1) obtain s1 where s1: "step arg ev s = Some s1"
      and rest: "exec arg evs s1 = Some s'"
      by (auto split: option.splits)
    from tracked_step [OF s1 Cons.prems(2)] Cons.IH [OF rest]
    show ?case by (cases ev) (simp_all add: ac_simps)
  qed
  then show "tracked s'" and "owed s' = owed s + mset (callers evs)" by simp_all
qed

text \<open>Settling the pending promises one after the other.\<close>

lemma fold_settle_fields:
  "waiters (fold (\<lambda>p. settle p r) ps s) = filter (\<lambda>w. fst w \<notin> set ps) (waiters s)"
  "length (jobs (fold (\<lambda>p. settle p r) ps s)) = length (jobs s) + length ps"
  "pending (fold (\<lambda>p. settle p r) ps s) q \<longleftrightarrow> q \<notin> set ps \<and> pending s q"
proof (induction ps arbitrary: s)
  case Nil
  {
    case 1 show ?case by simp
  next
    case 2 show ?case by simp
  next
    case 3 show ?case by simp
  }
next
  case (Cons p ps)
  have w: "waiters (settle p r t) = filter (\<lambda>w. fst w \<noteq> p) (waiters t)"
    and j: "length (jobs (settle p r t)) = Suc (length (jobs t))" for t :: "('a, 'b, 'c) cache"
    by (simp_all add: settle_def)
  {
    case 1 show ?case by (simp add: Cons w conj_commute)
  next
    case 2 show ?case by (simp add: Cons j)
  next
    case 3 show ?case by (auto simp: Cons pending_settle)
  }
qed

lemma exec_settles:
  "distinct ps \<Longrightarrow> \<forall>p \<in> set ps. pending s p \<Longrightarrow>
     exec arg (map (\<lambda>p. Settle p r) ps @ evs) s = exec arg evs (fold (\<lambda>p. settle p r) ps s)"
proof (induction ps arbitrary: s)
  case Nil
  show ?case by simp
next
  case (Cons p ps)
  from Cons.prems have "\<forall>q \<in> set ps. pending (settle p r s) q" and "distinct ps"
    by (auto simp: pending_settle)
  from Cons.IH [OF this(2,1)] Cons.prems show ?case by (simp add: pending_def)
qed

lemma exec_drain:
  assumes "tracked s"
  shows "exec arg (drain r s) s = Some (run_all (fold (\<lambda>p. settle p r) (pendings s) s))"
    and "waiters (fold (\<lambda>p. settle p r) (pendings s) s) = []"
proof -
  let ?s1 = "fold (\<lambda>p. settle p r) (pendings s) s"
  have "distinct (pendings s)" and "\<forall>p \<in> set (pendings s). pending s p"
    by (simp_all add: pendings_def pending_def)
  from exec_settles [OF this]
  have "exec arg (drain r s) s = exec arg (replicate (length (jobs ?s1)) Run) ?s1"
    by (simp add: drain_def fold_settle_fields)
  then show "exec arg (drain r s) s = Some (run_all ?s1)" by (simp add: exec_runs)
  from assms show "waiters ?s1 = []"
    by (auto simp: fold_settle_fields filter_empty_conv pendings_iff tracked_def)
qed

lemma callers_drain [simp]: "callers (drain r s) = []"
proof -
  have "callers (map (\<lambda>p. Settle p r) ps) = []" for ps :: "nat list"
    by (induction ps) simp_all
  moreover have "callers (replicate n Run) = []" for n
    by (induction n) simp_all
  ultimately show ?thesis by (simp add: drain_def)
qed

section \<open>The provider is asked once for every promise\<close>

lemma asked_step:
  "step arg ev s = Some s' \<Longrightarrow> length (asked s) = length (promises s)
    \<Longrightarrow> length (asked s') = length (promises s')"
  by (erule step_cases)
    (auto simp: call_def await_slot_def start_def settle_def
      split: deferred.splits option.splits promise_state.splits)

lemma asked_exec:
  "exec arg evs s = Some s' \<Longrightarrow> length (asked s) = length (promises s)
    \<Longrightarrow> length (asked s') = length (promises s')"
  by (induction evs arbitrary: s) (auto split: option.splits dest: asked_step)

section \<open>Examples\<close>

text \<open>
  A session whose first construction fails while two callers wait, and the
  events of a late call: the promise \<open>p\<close> is rejected, \<open>c1\<close> calls in the window
  before the job of the waiters clears the slot, \<open>c2\<close> calls after that job and
  \<open>c3\<close> after the job of \<open>c1\<close>.
\<close>

definition example_cache :: "(nat, string, unit) cache" where
  "example_cache = fresh Undefined"

definition example_events :: "(nat, string) event list" where
  "example_events = [Call 1, Call 2, Settle 0 (Inl ''lost''), Run, Call 3]"

definition late_call :: "nat \<Rightarrow> 'e \<Rightarrow> nat \<Rightarrow> nat \<Rightarrow> nat \<Rightarrow> ('v, 'e) event list" where
  "late_call p e c1 c2 c3 = [Settle p (Inl e), Call c1, Run, Call c2, Run, Call c3]"

definition example_late :: "(nat, string, unit) cache" where
  "example_late =
     \<lparr>slot = Promise 2, promises = [Rejected ''lost'', Pending, Pending],
      waiters = [(1, 3), (2, 4)], jobs = [], asked = [(), (), ()],
      returned = [(1, Inl ''lost''), (2, Inl ''lost'')]\<rparr>"

definition example_held :: "(nat, string, unit) cache" where
  "example_held =
     \<lparr>slot = Promise 0, promises = [Fulfilled 7], waiters = [], jobs = [],
      asked = [()], returned = [(1, Inr 7)]\<rparr>"

lemmas cache_defs [cov_defs] =
  fresh_def call_def start_def await_slot_def settle_def in_flight_def slot_rejected_def
  pending_def

lemma example_events_run:
  "exec () example_events example_cache =
     Some \<lparr>slot = Promise 1, promises = [Rejected ''lost'', Pending], waiters = [(1, 3)],
       jobs = [], asked = [(), ()], returned = [(1, Inl ''lost''), (2, Inl ''lost'')]\<rparr>"
  and example_events_calm: "calm () example_events example_cache"
  by (simp_all add: example_events_def example_cache_def cache_defs)

lemma coherent_example_held: "coherent example_held" "holds example_held 7"
  by (simp_all add: coherent_def example_held_def holds_def pending_def nth_opt_def less_Suc_eq)

section \<open>The window of a late call\<close>

lemma waiters_on_pending:
  assumes "coherent s" and "pending s p"
  shows "filter (\<lambda>w. fst w = p) (waiters s) = waiters s"
    and "filter (\<lambda>w. fst w \<noteq> p) (waiters s) = []"
proof -
  have "fst w = p" if "w \<in> set (waiters s)" for w
    using that assms by (auto dest: coherentD(3) pending_unique)
  then show "filter (\<lambda>w. fst w = p) (waiters s) = waiters s"
    and "filter (\<lambda>w. fst w \<noteq> p) (waiters s) = []"
    by (simp_all add: filter_empty_conv)
qed

lemma settle_rejects:
  assumes "coherent s" and "pending s p"
  shows "settle p (Inl e) s =
    s\<lparr>promises := (promises s)[p := Rejected e], waiters := [],
      jobs := jobs s @ [map (\<lambda>w. (snd w, Inl e)) (waiters s)]\<rparr>"
  by (simp add: settle_def waiters_on_pending [OF assms])

lemma in_flight_settled:
  assumes "coherent s" and "pending s p"
  shows "filter (\<lambda>q. q = Pending) ((promises s)[p := outcome_state r]) = []"
proof -
  have "(promises s)[p := outcome_state r] ! i \<noteq> Pending" if "i < length (promises s)" for i
  proof (cases "i = p")
    case True
    with that show ?thesis by simp
  next
    case False
    with that pending_unique [OF assms(1) _ assms(2), of i] show ?thesis
      by (auto simp: pending_def nth_opt_def)
  qed
  then show ?thesis by (auto simp: filter_empty_conv in_set_conv_nth)
qed

text \<open>The rejection, the late call and the job of the waiters.\<close>

lemma exec_window:
  fixes s :: "('v, 'e, 'a) cache" and e :: 'e
  assumes "coherent s" and "pending s p" and "waiters s \<noteq> []" and "jobs s = []"
  shows "exec arg [Settle p (Inl e), Call c1, Run] s =
      Some (s\<lparr>slot := Undefined, promises := (promises s)[p := Rejected e], waiters := [],
              jobs := [[(c1, Inl e)]],
              returned := returned s @ map (\<lambda>w. (snd w, Inl e)) (waiters s)\<rparr>)"
proof -
  let ?job = "map (\<lambda>w. (snd w, Inl e)) (waiters s) :: (nat \<times> ('e + 'v)) list"
  from assms(1,2) have slot: "slot s = Promise p" and p: "p < length (promises s)"
    by (auto dest: coherentD(1,2))
  from assms(3) have failing: "failing ?job"
    by (cases "waiters s") (simp_all add: failing_def)
  define t1 where "t1 = s\<lparr>promises := (promises s)[p := Rejected e], waiters := [], jobs := [?job]\<rparr>"
  have s1: "step arg (Settle p (Inl e)) s = Some t1"
    using assms(2,4) by (simp add: pending_def settle_rejects [OF assms(1,2)] t1_def)
  have s2: "call arg c1 t1 = t1\<lparr>jobs := [?job, [(c1, Inl e)]]\<rparr>"
    using slot p by (simp add: t1_def call_def await_slot_def nth_opt_update)
  have s3: "step arg Run (t1\<lparr>jobs := [?job, [(c1, Inl e)]]\<rparr>) =
      Some (t1\<lparr>slot := Undefined, jobs := [[(c1, Inl e)]], returned := returned s @ ?job\<rparr>)"
    using failing by (simp add: fold_resume_eq t1_def)
  show ?thesis using s1 s2 s3 by (simp add: t1_def)
qed

text \<open>Two calls around the job of the late caller.\<close>

lemma exec_second_flight:
  assumes "slot s = Undefined" and "waiters s = []" and "jobs s = [[(c1, Inl e)]]"
  shows "exec arg [Call c2, Run, Call c3] s =
      Some (s\<lparr>slot := Promise (Suc (length (promises s))),
              promises := promises s @ [Pending, Pending],
              waiters := [(length (promises s), c2), (Suc (length (promises s)), c3)],
              jobs := [], asked := asked s @ [arg, arg],
              returned := returned s @ [(c1, Inl e)]\<rparr>)"
proof -
  let ?n = "length (promises s)"
  define t4 where "t4 = s\<lparr>slot := Promise ?n, promises := promises s @ [Pending],
    waiters := [(?n, c2)], asked := asked s @ [arg]\<rparr>"
  have s4: "call arg c2 s = t4"
    using assms by (simp add: call_Undefined start_def t4_def)
  have s5: "step arg Run t4 = Some (t4\<lparr>slot := Undefined, jobs := [],
      returned := returned s @ [(c1, Inl e)]\<rparr>)"
    using assms by (simp add: fold_resume_eq t4_def)
  have s6: "call arg c3 (t4\<lparr>slot := Undefined, jobs := [], returned := returned s @ [(c1, Inl e)]\<rparr>) =
      t4\<lparr>slot := Promise (Suc ?n), promises := promises s @ [Pending, Pending],
        waiters := [(?n, c2), (Suc ?n, c3)], jobs := [], asked := asked s @ [arg, arg],
        returned := returned s @ [(c1, Inl e)]\<rparr>"
    by (simp add: call_Undefined start_def t4_def)
  show ?thesis using s4 s5 s6 by (simp add: t4_def)
qed

section \<open>Properties\<close>

text \<open>
  Property C5 (invariant). Single flight. In a run in which no call comes
  while the slot holds a rejected promise, at most one promise is pending and
  the provider has been called once for every promise there is: no caller
  starts a second construction while one is in flight.
\<close>

theorem single_flight:
  assumes "coherent s" and "length (asked s) = length (promises s)"
    and "calm arg evs s" and "exec arg evs s = Some s'"
  shows "in_flight s' \<le> 1 \<and> length (asked s') = length (promises s')"
proof -
  from assms(4,3) have "s' \<in> settled_runs arg s"
    by (rule exec_settled_runs) (rule settled_runs.init)
  then have "coherent s'" using assms(1) by (rule settled_runs_coherent)
  with coherent_in_flight [of s'] asked_exec [OF assms(4,2)] show ?thesis by simp
qed

theorem single_flight_witness:
  "coherent example_cache \<and> calm () example_events example_cache \<and>
   map_option in_flight (exec () example_events example_cache) = Some 1 \<and>
   map_option (\<lambda>s. length (asked s)) (exec () example_events example_cache) = Some 2"
proof -
  have c: "coherent example_cache" and a: "length (asked example_cache) = length (promises example_cache)"
    by (simp_all add: example_cache_def coherent_fresh) (simp add: fresh_def)
  have r: "map_option in_flight (exec () example_events example_cache) = Some 1"
    "map_option (\<lambda>s. length (asked s)) (exec () example_events example_cache) = Some 2"
    by (simp_all only: example_events_run option.map) (simp_all add: in_flight_def)
  from single_flight [OF c a example_events_calm example_events_run] c example_events_calm r
  show ?thesis by blast
qed

text \<open>
  Property C14 (safety). The window of a late call. In every state of the
  protocol in which callers wait on the pending promise \<open>p\<close> and the queue is
  empty, let \<open>p\<close> be rejected and let \<open>c1\<close> call before the job of the waiters
  has cleared the slot. Then \<open>c1\<close> awaits the rejected promise; \<open>c2\<close>, calling
  after the job of the waiters, starts a construction; the job of \<open>c1\<close> clears
  the slot again although it holds the promise of that construction; and
  \<open>c3\<close> starts another: two constructions are in flight, the provider has
  been asked twice more, and the run is not one of the calm runs.
\<close>

theorem late_call_second_flight:
  assumes "coherent s" and "pending s p" and "waiters s \<noteq> []" and "jobs s = []"
  shows "exec arg (late_call p e c1 c2 c3) s =
      Some (s\<lparr>slot := Promise (Suc (length (promises s))),
              promises := (promises s)[p := Rejected e] @ [Pending, Pending],
              waiters := [(length (promises s), c2), (Suc (length (promises s)), c3)],
              asked := asked s @ [arg, arg],
              returned := returned s @ map (\<lambda>w. (snd w, Inl e)) (waiters s) @ [(c1, Inl e)]\<rparr>) \<and>
    map_option in_flight (exec arg (late_call p e c1 c2 c3) s) = Some 2 \<and>
    \<not> calm arg (late_call p e c1 c2 c3) s"
proof -
  let ?t = "s\<lparr>slot := Undefined, promises := (promises s)[p := Rejected e], waiters := [],
    jobs := [[(c1, Inl e)]], returned := returned s @ map (\<lambda>w. (snd w, Inl e)) (waiters s)\<rparr>"
  from assms(1,2) have slot: "slot s = Promise p" and p: "p < length (promises s)"
    by (auto dest: coherentD(1,2))
  have split: "late_call p e c1 c2 c3 = [Settle p (Inl e), Call c1, Run] @ [Call c2, Run, Call c3]"
    by (simp add: late_call_def)
  have run: "exec arg (late_call p e c1 c2 c3) s = exec arg [Call c2, Run, Call c3] ?t"
    unfolding split exec_append exec_window [OF assms] by simp
  also have "\<dots> = Some (s\<lparr>slot := Promise (Suc (length (promises s))),
      promises := (promises s)[p := Rejected e] @ [Pending, Pending],
      waiters := [(length (promises s), c2), (Suc (length (promises s)), c3)],
      asked := asked s @ [arg, arg],
      returned := returned s @ map (\<lambda>w. (snd w, Inl e)) (waiters s) @ [(c1, Inl e)]\<rparr>)"
    using assms(4) by (subst exec_second_flight [of _ c1 e]) simp_all
  finally have e: "exec arg (late_call p e c1 c2 c3) s = Some (s\<lparr>slot := Promise (Suc (length (promises s))),
      promises := (promises s)[p := Rejected e] @ [Pending, Pending],
      waiters := [(length (promises s), c2), (Suc (length (promises s)), c3)],
      asked := asked s @ [arg, arg],
      returned := returned s @ map (\<lambda>w. (snd w, Inl e)) (waiters s) @ [(c1, Inl e)]\<rparr>)" .
  have "slot_rejected (settle p (Inl e) s)"
    using slot p by (simp add: settle_def slot_rejected_def nth_opt_update)
  then have "\<not> calm arg (late_call p e c1 c2 c3) s"
    using assms(2) by (simp add: late_call_def pending_def)
  with e in_flight_settled [OF assms(1,2), of "Inl e"] show ?thesis
    by (simp add: in_flight_def)
qed

theorem late_call_second_flight_witness:
  "coherent (call () 1 (fresh Undefined) :: (nat, string, unit) cache) \<and>
   pending (call () 1 (fresh Undefined) :: (nat, string, unit) cache) 0 \<and>
   map_option (\<lambda>s. (in_flight s, asked s, slot s, waiters s, returned s))
     (exec () (late_call 0 ''lost'' 2 3 4) (call () 1 (fresh Undefined) :: (nat, string, unit) cache)) =
       Some (2, [(), (), ()], Promise 2, [(1, 3), (2, 4)], [(1, Inl ''lost''), (2, Inl ''lost'')])"
proof -
  let ?s = "call () 1 (fresh Undefined) :: (nat, string, unit) cache"
  have s: "?s = \<lparr>slot = Promise 0, promises = [Pending], waiters = [(0, 1)], jobs = [],
      asked = [()], returned = []\<rparr>"
    by (simp add: cache_defs)
  have c: "coherent ?s" and q: "pending ?s 0"
    unfolding s by (simp_all add: coherent_def pending_def nth_opt_def)
  have w: "waiters ?s \<noteq> []" and j: "jobs ?s = []" unfolding s by simp_all
  from late_call_second_flight [OF c q w j, of "()" "''lost''" 2 3 4] c q show ?thesis
    unfolding s by (simp add: in_flight_def)
qed

text \<open>
  Property C27 (functional). A value is reused. Once the slot holds a value,
  or a promise that was fulfilled, no run changes the slot or calls the
  provider again, and every later call is resumed with that value.
\<close>

theorem fulfilled_is_reused:
  assumes "coherent s" and "holds s v" and "exec arg evs s = Some s'"
  shows "slot s' = slot s \<and> asked s' = asked s \<and>
    call arg c s' = s'\<lparr>jobs := jobs s' @ [[(c, Inr v)]]\<rparr>"
  using holds_exec [OF assms] by (simp add: holds_call [of s' v])

theorem fulfilled_is_reused_witness:
  "coherent example_held \<and> holds example_held 7 \<and>
   map_option (\<lambda>s. (slot s, asked s, returned s)) (exec () [Call 2, Run, Call 3, Run] example_held)
     = Some (Promise 0, [()], [(1, Inr 7), (2, Inr 7), (3, Inr 7)])"
proof -
  have e: "exec () [Call 2, Run, Call 3, Run] example_held =
      Some (example_held\<lparr>returned := [(1, Inr 7), (2, Inr 7), (3, Inr 7)]\<rparr>)"
    by (simp add: example_held_def cache_defs)
  have r: "map_option (\<lambda>s. (slot s, asked s, returned s))
      (exec () [Call 2, Run, Call 3, Run] example_held)
        = Some (Promise 0, [()], [(1, Inr 7), (2, Inr 7), (3, Inr 7)])"
    by (simp only: e option.map) (simp add: example_held_def)
  from fulfilled_is_reused [OF coherent_example_held e] coherent_example_held r
  show ?thesis by blast
qed

text \<open>
  Property C15 (liveness). No caller is lost. After any run from the initial
  state, late calls and overlapping constructions included, once the
  provider settles every promise that is pending and the queue is run to its
  end, no caller waits, no job is left, the slot does not hold a rejected
  promise (the next call starts anew), and the callers that have returned or
  thrown are the callers of the run, each once.
\<close>

theorem every_call_returns:
  assumes "exec arg evs (fresh d) = Some s" and "\<forall>p. d \<noteq> Promise p"
  shows "map_option (\<lambda>s'. (waiters s', jobs s', slot_rejected s', mset (map fst (returned s'))))
      (exec arg (drain r s) s) = Some ([], [], False, mset (callers evs))"
proof -
  let ?s' = "run_all (fold (\<lambda>p. settle p r) (pendings s) s)"
  from assms(2) have "tracked (fresh d)" by (cases d) (simp_all add: tracked_fresh)
  from tracked_exec [OF assms(1) this] have s: "tracked s" and owed: "owed s = mset (callers evs)"
    by (simp_all add: owed_def fresh_def)
  from exec_drain [OF s] have run: "exec arg (drain r s) s = Some ?s'" and w: "waiters ?s' = []"
    by simp_all
  from tracked_exec [OF run s] have "tracked ?s'" and "owed ?s' = mset (callers evs)"
    by (simp_all add: owed)
  with w show ?thesis
    by (simp add: run tracked_def owed_def)
qed


theorem every_call_returns_witness:
  "exec () (Call 1 # late_call 0 ''lost'' 2 3 4) example_cache = Some example_late \<and>
   drain (Inr 5) example_late = [Settle 1 (Inr 5), Settle 2 (Inr 5), Run, Run] \<and>
   map_option (\<lambda>s'. (waiters s', jobs s', slot_rejected s', mset (map fst (returned s'))))
     (exec () (drain (Inr 5) example_late) example_late) = Some ([], [], False, {#1, 2, 3, 4#})"
proof -
  have run: "exec () (Call 1 # late_call 0 ''lost'' 2 3 4) (fresh Undefined) = Some example_late"
    by (simp add: example_late_def late_call_def cache_defs)
  have d: "drain (Inr 5) example_late = [Settle 1 (Inr 5), Settle 2 (Inr 5), Run, Run]"
    by (simp add: example_late_def drain_def pendings_def nth_opt_def upt_rec)
  from every_call_returns [OF run, of "Inr 5"] run d show ?thesis
    by (simp add: late_call_def example_cache_def ac_simps)
qed

end
