(* ===== verification/File_Coverage.thy ===== *)
theory File_Coverage
  imports Test_Types Promise_Cache
begin

text \<open>
  The coverage values of \<^verbatim>\<open>testCoverage.ts\<close>: the class
  \<^verbatim>\<open>AbstractFileCoverage\<close> with its constructor and its getter \<^verbatim>\<open>tpc\<close>, and its
  two subclasses \<^verbatim>\<open>FileCoverage\<close> (a file reported by the provider) and
  \<^verbatim>\<open>ComputedFileCoverage\<close> (a directory, summed from its children).

  The fields of the class are a record; the provider's \<^verbatim>\<open>IFileCoverage\<close> has the
  same four fields and an optional \<^verbatim>\<open>details\<close>, so it is the record extended
  by that field, and the field names are those of the source
  (\<open>function'\<close> for \<^verbatim>\<open>function\<close>). The two subclasses are the two constructors of
  one datatype; \<open>base\<close> is the part they inherit. \<^verbatim>\<open>URI.revive\<close> returns the
  identifier it is given and is left out.
\<close>

section \<open>AbstractFileCoverage\<close>

record AbstractFileCoverage =
  uri :: URI
  statement :: ICoveredCount
  branch :: "ICoveredCount option"
  function' :: "ICoveredCount option"

record IFileCoverage = AbstractFileCoverage +
  details :: "CoverageDetails list option"

text \<open>The constructor copies the fields of the record it is given.\<close>

definition AbstractFileCoverage_new :: "IFileCoverage \<Rightarrow> AbstractFileCoverage" where
  "AbstractFileCoverage_new coverage =
     \<lparr>uri = uri coverage,
      statement = statement coverage,
      branch = branch coverage,
      function' = branch coverage\<rparr>"

text \<open>The getter \<^verbatim>\<open>tpc\<close>: covered over total, summed over the categories present.\<close>

definition tpc :: "AbstractFileCoverage \<Rightarrow> percent" where
  "tpc c =
     (let numerator = covered (statement c);
          denominator = total (statement c);
          numerator = (case branch c of None \<Rightarrow> numerator | Some b \<Rightarrow> numerator + covered b);
          denominator = (case branch c of None \<Rightarrow> denominator | Some b \<Rightarrow> denominator + total b);
          numerator = (case function' c of None \<Rightarrow> numerator | Some f \<Rightarrow> numerator + covered f);
          denominator = (case function' c of None \<Rightarrow> denominator | Some f \<Rightarrow> denominator + total f)
      in if denominator = 0 then 1 else of_int numerator / of_int denominator)"

section \<open>FileCoverage and ComputedFileCoverage\<close>

datatype FileCoverageNode =
    FileCoverage (base: AbstractFileCoverage) (index: nat)
      (details': "CoverageDetails list deferred")
  | ComputedFileCoverage (base: AbstractFileCoverage)

definition FileCoverage_new :: "IFileCoverage \<Rightarrow> nat \<Rightarrow> FileCoverageNode" where
  "FileCoverage_new coverage i =
     FileCoverage (AbstractFileCoverage_new coverage) i
       (case details coverage of None \<Rightarrow> Undefined | Some ds \<Rightarrow> Ready ds)"

definition ComputedFileCoverage_new :: "IFileCoverage \<Rightarrow> FileCoverageNode" where
  "ComputedFileCoverage_new coverage = ComputedFileCoverage (AbstractFileCoverage_new coverage)"

lemmas coverage_ctor_defs [cov_defs] =
  AbstractFileCoverage_new_def FileCoverage_new_def ComputedFileCoverage_new_def

section \<open>Well-formed coverage\<close>

text \<open>Every count that is present satisfies the invariant of the data model.\<close>

definition coverage_ok :: "'a AbstractFileCoverage_scheme \<Rightarrow> bool" where
  "coverage_ok c \<longleftrightarrow>
     count_ok (statement c) \<and>
     (case branch c of None \<Rightarrow> True | Some b \<Rightarrow> count_ok b) \<and>
     (case function' c of None \<Rightarrow> True | Some f \<Rightarrow> count_ok f)"

text \<open>The counts of the categories a value has.\<close>

definition present_counts :: "'a AbstractFileCoverage_scheme \<Rightarrow> ICoveredCount list" where
  "present_counts c =
     statement c # (case branch c of None \<Rightarrow> [] | Some b \<Rightarrow> [b])
       @ (case function' c of None \<Rightarrow> [] | Some f \<Rightarrow> [f])"

lemma coverage_ok_present: "coverage_ok c \<longleftrightarrow> (\<forall>cc \<in> set (present_counts c). count_ok cc)"
  by (auto simp: coverage_ok_def present_counts_def split: option.splits)

subsection \<open>The constructor\<close>

lemma new_statement [simp]: "statement (AbstractFileCoverage_new c) = statement c"
  and new_branch [simp]: "branch (AbstractFileCoverage_new c) = branch c"
  and new_uri [simp]: "uri (AbstractFileCoverage_new c) = uri c"
  by (simp_all add: AbstractFileCoverage_new_def)

lemma new_function [simp]: "function' (AbstractFileCoverage_new c) = branch c"
  by (simp add: AbstractFileCoverage_new_def)

lemma base_FileCoverage_new [simp]:
  "base (FileCoverage_new c i) = AbstractFileCoverage_new c"
  by (simp add: FileCoverage_new_def)

lemma base_ComputedFileCoverage_new [simp]:
  "base (ComputedFileCoverage_new c) = AbstractFileCoverage_new c"
  by (simp add: ComputedFileCoverage_new_def)

lemma coverage_ok_new [cov_wf]:
  "coverage_ok c \<Longrightarrow> coverage_ok (AbstractFileCoverage_new c)"
  by (simp add: coverage_ok_def split: option.splits)

section \<open>tpc\<close>

lemma tpc_sum:
  "tpc c =
     (let s = sum_list (present_counts c)
      in if total s = 0 then 1 else of_int (covered s) / of_int (total s))"
  by (simp add: tpc_def present_counts_def Let_def add.assoc split: option.splits)

text \<open>Sums of counts that are each within their totals.\<close>

lemma sum_list_total_zero:
  "\<forall>cc \<in> set ccs. total cc = 0 \<Longrightarrow> sum_list (map total ccs) = 0"
  by (induction ccs) simp_all

lemma sum_list_covered_le:
  "(\<And>cc. cc \<in> set ccs \<Longrightarrow> count_ok cc) \<Longrightarrow> sum_list (map covered ccs) \<le> sum_list (map total ccs)"
  by (induction ccs) (auto simp: count_ok_def intro: add_mono)

lemma sum_list_covered_nonneg:
  "(\<And>cc. cc \<in> set ccs \<Longrightarrow> count_ok cc) \<Longrightarrow> 0 \<le> sum_list (map covered ccs)"
  by (induction ccs) (auto simp: count_ok_def)

lemma sum_list_covered_full:
  "(\<And>cc. cc \<in> set ccs \<Longrightarrow> count_ok cc) \<Longrightarrow>
     sum_list (map covered ccs) = sum_list (map total ccs)
       \<longleftrightarrow> (\<forall>cc \<in> set ccs. covered cc = total cc)"
proof (induction ccs)
  case Nil
  show ?case by simp
next
  case (Cons cc ccs)
  from Cons.prems have "covered cc \<le> total cc"
    and "sum_list (map covered ccs) \<le> sum_list (map total ccs)"
    by (simp_all add: count_ok_def sum_list_covered_le)
  with Cons show ?case by auto
qed

section \<open>Properties\<close>

text \<open>
  Property C3 (bounds). For a value whose counts satisfy the invariant of the
  data model, \<^verbatim>\<open>tpc\<close> lies between 0 and 1.
\<close>

theorem tpc_bounds:
  assumes "coverage_ok c"
  shows "0 \<le> tpc c \<and> tpc c \<le> 1"
proof -
  let ?s = "sum_list (present_counts c)"
  from assms have ok: "count_ok ?s"
    by (intro count_ok_sum_list) (simp add: coverage_ok_present)
  show ?thesis
  proof (cases "total ?s = 0")
    case True
    then show ?thesis by (simp add: tpc_sum Let_def del: total_sum_list covered_sum_list)
  next
    case False
    with ok have "0 < total ?s" "0 \<le> covered ?s" "covered ?s \<le> total ?s"
      by (auto simp: count_ok_def simp del: total_sum_list covered_sum_list)
    then show ?thesis
      by (simp add: tpc_sum Let_def ratio_le_one del: total_sum_list covered_sum_list)
  qed
qed

theorem tpc_bounds_witness:
  "coverage_ok \<lparr>uri = \<lparr>scheme = ''file'', authority = '''', path = ''/f''\<rparr>,
       statement = CoveredCount 1 2, branch = Some (CoveredCount 0 3), function' = None\<rparr> \<and>
   tpc \<lparr>uri = \<lparr>scheme = ''file'', authority = '''', path = ''/f''\<rparr>,
       statement = CoveredCount 1 2, branch = Some (CoveredCount 0 3), function' = None\<rparr> = 1 / 5"
proof -
  let ?c = "\<lparr>uri = \<lparr>scheme = ''file'', authority = '''', path = ''/f''\<rparr>,
       statement = CoveredCount 1 2, branch = Some (CoveredCount 0 3), function' = None\<rparr>"
  have h: "coverage_ok ?c" by (simp add: coverage_ok_def count_ok_def)
  from tpc_bounds [OF h] h show ?thesis by (simp add: tpc_def)
qed

text \<open>
  Property C39 (functional). When \<^verbatim>\<open>tpc\<close> is 1. A value none of whose
  categories has a unit to cover has \<^verbatim>\<open>tpc\<close> 1: the zero denominator is
  reported as full coverage. For counts that satisfy the invariant of the
  data model, \<^verbatim>\<open>tpc\<close> is 1 exactly when every unit of every category the value
  has is covered.
\<close>

theorem tpc_no_units:
  "((\<forall>cc \<in> set (present_counts c). total cc = 0) \<longrightarrow> tpc c = 1) \<and>
   (coverage_ok c \<longrightarrow>
      (tpc c = 1 \<longleftrightarrow> (\<forall>cc \<in> set (present_counts c). covered cc = total cc)))"
proof (intro conjI impI)
  assume "\<forall>cc \<in> set (present_counts c). total cc = 0"
  then show "tpc c = 1" by (simp add: tpc_sum sum_list_total_zero)
next
  assume ok: "coverage_ok c"
  let ?ccs = "present_counts c"
  from ok have each: "count_ok cc" if "cc \<in> set ?ccs" for cc
    using that by (simp add: coverage_ok_present)
  then have full: "sum_list (map covered ?ccs) = sum_list (map total ?ccs)
      \<longleftrightarrow> (\<forall>cc \<in> set ?ccs. covered cc = total cc)"
    by (intro sum_list_covered_full) simp
  show "tpc c = 1 \<longleftrightarrow> (\<forall>cc \<in> set ?ccs. covered cc = total cc)"
  proof (cases "sum_list (map total ?ccs) = 0")
    case True
    with each have "\<forall>cc \<in> set ?ccs. covered cc = total cc"
      using full sum_list_covered_le [of ?ccs] sum_list_covered_nonneg [of ?ccs] by simp
    with True show ?thesis by (simp add: tpc_sum)
  next
    case False
    with full show ?thesis by (auto simp: tpc_sum)
  qed
qed

theorem tpc_no_units_witness:
  "coverage_ok \<lparr>uri = \<lparr>scheme = ''file'', authority = [], path = ''/f''\<rparr>,
       statement = CoveredCount 0 0, branch = Some (CoveredCount 3 3), function' = None\<rparr> \<and>
   tpc \<lparr>uri = \<lparr>scheme = ''file'', authority = [], path = ''/f''\<rparr>,
       statement = CoveredCount 0 0, branch = Some (CoveredCount 0 0), function' = None\<rparr> = 1 \<and>
   tpc \<lparr>uri = \<lparr>scheme = ''file'', authority = [], path = ''/f''\<rparr>,
       statement = CoveredCount 0 0, branch = Some (CoveredCount 3 3), function' = None\<rparr> = 1"
proof -
  let ?c0 = "\<lparr>uri = \<lparr>scheme = ''file'', authority = [], path = ''/f''\<rparr>,
       statement = CoveredCount 0 0, branch = Some (CoveredCount 0 0), function' = None\<rparr>"
  let ?c3 = "\<lparr>uri = \<lparr>scheme = ''file'', authority = [], path = ''/f''\<rparr>,
       statement = CoveredCount 0 0, branch = Some (CoveredCount 3 3), function' = None\<rparr>"
  have z: "\<forall>cc \<in> set (present_counts ?c0). total cc = 0"
    and f: "\<forall>cc \<in> set (present_counts ?c3). covered cc = total cc"
    and ok: "coverage_ok ?c3"
    by (simp_all add: present_counts_def coverage_ok_def count_ok_def)
  from tpc_no_units [of ?c0] tpc_no_units [of ?c3] z f ok show ?thesis by blast
qed

text \<open>
  Property C20 (functional). The constructor of \<^verbatim>\<open>AbstractFileCoverage\<close> assigns
  \<^verbatim>\<open>coverage.branch\<close> to the field \<^verbatim>\<open>function\<close>. So the \<^verbatim>\<open>tpc\<close> of a value made
  from a record counts the branches of the record twice and its functions
  never: it is the covered statements and twice the covered branches over
  the statements and twice the branches, whatever the provider reports for
  the functions.
\<close>

theorem constructor_drops_function:
  "tpc (base (FileCoverage_new coverage i)) =
     (let twice = (\<lambda>count. case branch coverage of None \<Rightarrow> 0 | Some b \<Rightarrow> 2 * count b);
          numerator = covered (statement coverage) + twice covered;
          denominator = total (statement coverage) + twice total
      in if denominator = 0 then 1 else of_int numerator / of_int denominator) \<and>
   tpc (base (FileCoverage_new (coverage\<lparr>function' := f\<rparr>) i))
     = tpc (base (FileCoverage_new coverage i)) \<and>
   tpc (base (ComputedFileCoverage_new coverage)) = tpc (base (FileCoverage_new coverage i))"
  by (simp add: tpc_def AbstractFileCoverage_new_def Let_def add.commute split: option.splits)

end
