(* ===== verification/Test_Coverage.thy ===== *)
theory Test_Coverage
  imports Prefix_Tree File_Coverage
begin

text \<open>
  The construction of the coverage tree, \<^verbatim>\<open>TestCoverage.createFileCoverage\<close> of
  \<^verbatim>\<open>testCoverage.ts\<close> after its \<^verbatim>\<open>await\<close>: the files of the provider are inserted
  as leaves under the key \<^verbatim>\<open>treePathForUri\<close> gives them, and then
  \<^verbatim>\<open>calculateComputed\<close> is called on every node of the tree, which gives each
  node without a value the sum of its children.

  \<^verbatim>\<open>calculateComputed\<close> writes \<^verbatim>\<open>node.value\<close> as it returns; the model returns
  the value together with the node as it is afterwards. \<^verbatim>\<open>URI.from\<close> is not
  among the sources: it is a parameter \<open>mk\<close> of the functions that call it,
  which receives the three components as the source passes them, a component
  read past the end of the path being \<open>None\<close>.
\<close>

type_synonym coverage_tree = "FileCoverageNode IPrefixTreeNode"
type_synonym uri_from = "string option \<Rightarrow> string option \<Rightarrow> string \<Rightarrow> URI"

section \<open>Keys\<close>

definition treePathForUri :: "URI \<Rightarrow> tree_path" where
  "treePathForUri u = scheme u # authority u # js_split CHR ''/'' (path u)"

definition treePathToUri :: "uri_from \<Rightarrow> tree_path \<Rightarrow> URI" where
  "treePathToUri mk p = mk (nth_opt p 0) (nth_opt p 1) (js_join CHR ''/'' (drop 2 p))"

section \<open>Summing a child into its parent\<close>

text \<open>
  \<^verbatim>\<open>if (src) { sumCounts(target ??= emptyCounts(), src) }\<close>: a category the
  child does not have leaves the parent's as it is.
\<close>

fun sumOptional :: "ICoveredCount option \<Rightarrow> ICoveredCount option \<Rightarrow> ICoveredCount option" where
  "sumOptional target None = target"
| "sumOptional None (Some src) = Some (sumCounts emptyCounts src)"
| "sumOptional (Some t) (Some src) = Some (sumCounts t src)"

definition sumChild :: "IFileCoverage \<Rightarrow> AbstractFileCoverage \<Rightarrow> IFileCoverage" where
  "sumChild fileCoverage v =
     fileCoverage
       \<lparr>statement := sumCounts (statement fileCoverage) (statement v),
        branch := sumOptional (branch fileCoverage) (branch v),
        function' := sumOptional (function' fileCoverage) (function' v)\<rparr>"

lemma sumCounts_emptyCounts_left [simp]: "sumCounts emptyCounts c = c"
  by (rule count_eqI) simp_all

lemma sumOptional_None_left [simp]: "sumOptional None src = src"
  by (cases src) simp_all

lemma sumOptional_assoc:
  "sumOptional (sumOptional a b) c = sumOptional a (sumOptional b c)"
  by (cases a; cases b; cases c) (simp_all add: sumCounts_plus add.assoc)

lemma sumOptional_commute: "sumOptional a b = sumOptional b a"
  by (cases a; cases b) (simp_all add: sumCounts_plus add.commute)

text \<open>The sum of a list of optional counts: absent when all of them are.\<close>

fun opt_sum :: "ICoveredCount option list \<Rightarrow> ICoveredCount option" where
  "opt_sum [] = None"
| "opt_sum (a # os) = sumOptional a (opt_sum os)"

lemma fold_sumOptional:
  "fold (\<lambda>src target. sumOptional target src) os t = sumOptional t (opt_sum os)"
  by (induction os arbitrary: t) (simp_all add: sumOptional_assoc)

lemma opt_sum_append [simp]: "opt_sum (xs @ ys) = sumOptional (opt_sum xs) (opt_sum ys)"
  by (induction xs) (simp_all add: sumOptional_assoc)

lemma opt_sum_present:
  "opt_sum os = (if present os = [] then None else Some (sum_list (present os)))"
proof (induction os)
  case Nil
  show ?case by simp
next
  case (Cons a os)
  show ?case by (cases a) (auto simp: Cons.IH sumCounts_plus)
qed

section \<open>calculateComputed\<close>

fun calculateComputed ::
    "uri_from \<Rightarrow> tree_path \<Rightarrow> coverage_tree \<Rightarrow> FileCoverageNode \<times> coverage_tree"
  and calculateChildren ::
    "uri_from \<Rightarrow> tree_path \<Rightarrow> (segment \<times> coverage_tree) list \<Rightarrow> IFileCoverage
      \<Rightarrow> IFileCoverage \<times> (segment \<times> coverage_tree) list"
where
  "calculateComputed mk p (Node (Some v) cs) = (v, Node (Some v) cs)"
| "calculateComputed mk p (Node None cs) =
     (let (fileCoverage, cs') =
            calculateChildren mk p cs
              \<lparr>uri = treePathToUri mk p, statement = emptyCounts,
               branch = None, function' = None, details = None\<rparr>;
          v = ComputedFileCoverage_new fileCoverage
      in (v, Node (Some v) cs'))"
| "calculateChildren mk p [] fileCoverage = (fileCoverage, [])"
| "calculateChildren mk p ((k, child) # rest) fileCoverage =
     (let (v, child') = calculateComputed mk (p @ [k]) child;
          (fileCoverage', rest') = calculateChildren mk p rest (sumChild fileCoverage (base v))
      in (fileCoverage', (k, child') # rest'))"

section \<open>createFileCoverage\<close>

text \<open>The first loop: every file becomes a leaf.\<close>

definition insertFiles :: "IFileCoverage list \<Rightarrow> coverage_tree \<Rightarrow> coverage_tree" where
  "insertFiles files tree =
     fold (\<lambda>file t. insert_tree (treePathForUri (uri file)) (FileCoverage_new file 0) t)
       files tree"

text \<open>The second loop: \<^verbatim>\<open>calculateComputed([], node)\<close> for every node of the tree.\<close>

definition computeNodes :: "uri_from \<Rightarrow> coverage_tree \<Rightarrow> coverage_tree" where
  "computeNodes mk tree =
     fold (\<lambda>p t. update_at p (\<lambda>node. snd (calculateComputed mk [] node)) t)
       (map fst (nodes tree)) tree"

definition createFileCoverage :: "uri_from \<Rightarrow> IFileCoverage list \<Rightarrow> coverage_tree" where
  "createFileCoverage mk files = computeNodes mk (insertFiles files empty_tree)"

text \<open>The lookup of \<^verbatim>\<open>getUri\<close> in the finished tree.\<close>

definition findUri :: "URI \<Rightarrow> coverage_tree \<Rightarrow> FileCoverageNode option" where
  "findUri u files = find_tree (js_split CHR ''/'' (path u)) files"

lemmas tree_build_defs [cov_defs] =
  createFileCoverage_def computeNodes_def insertFiles_def nodes_def findUri_def
  treePathForUri_def treePathToUri_def sumChild_def

section \<open>Properties\<close>

text \<open>
  Property C40 (functional). Summing an optional category into the parent,
  \<^verbatim>\<open>if (v.branch) { sumCounts(fileCoverage.branch ??= emptyCounts(), v.branch) }\<close>,
  is associative and commutative with the absent category as its unit, so the
  aggregate of a directory does not depend on the order of its children; the
  category of the parent is absent exactly when it is absent in both, and two
  categories with \<open>0 \<le> covered \<le> total\<close> sum to one.
\<close>

theorem sumOptional_laws:
  "sumOptional (sumOptional a b) c = sumOptional a (sumOptional b c) \<and>
   sumOptional a b = sumOptional b a \<and>
   sumOptional None a = a \<and>
   (sumOptional a b = None \<longleftrightarrow> a = None \<and> b = None) \<and>
   (count_ok x \<and> count_ok y \<longrightarrow>
      (\<exists>z. sumOptional (Some x) (Some y) = Some z \<and> count_ok z))"
proof -
  have "sumOptional a b = None \<longleftrightarrow> a = None \<and> b = None"
    by (cases a; cases b) simp_all
  moreover have "count_ok x \<and> count_ok y \<longrightarrow> count_ok (sumCounts x y)"
    by (simp add: count_ok_plus sumCounts_plus)
  ultimately show ?thesis
    using sumOptional_assoc [of a b c] sumOptional_commute [of a b] by simp
qed

theorem sumOptional_laws_witness:
  "count_ok (CoveredCount 1 2) \<and> count_ok (CoveredCount 3 4) \<and>
   sumOptional (Some (CoveredCount 1 2)) (Some (CoveredCount 3 4)) = Some (CoveredCount 4 6) \<and>
   sumOptional None (Some (CoveredCount 3 4)) = Some (CoveredCount 3 4)"
  using sumOptional_laws [of "Some (CoveredCount 1 2)" "Some (CoveredCount 3 4)" None
      "CoveredCount 1 2" "CoveredCount 3 4"]
  by (simp add: count_ok_def sumCounts_def)

end
