(* ===== verification/Coverage_Aggregation.thy ===== *)
theory Coverage_Aggregation
  imports Test_Coverage
begin

text \<open>
  What the second loop of \<^verbatim>\<open>createFileCoverage\<close> promises, and the proof that
  the loop of \<open>Test_Coverage\<close> keeps the promise: the specification of an
  aggregate (\<open>frontier\<close>, \<open>agg_statement\<close>, \<open>agg_branch\<close>), the relation
  \<open>filled_from\<close> between the tree after the first loop and the tree at any
  moment of the second, the lemma that \<^verbatim>\<open>calculateComputed\<close> refines the
  specification, and the properties of \<open>computeNodes\<close> and
  \<open>createFileCoverage\<close> that follow.
\<close>

section \<open>What aggregation promises\<close>

text \<open>
  The frontier of a node is the values nearest below it: its own value if it
  has one, the frontiers of its children otherwise. A directory's statement
  count is promised to be the sum over its frontier, its branch count the sum
  of the branch counts the frontier has, absent when there is none.
\<close>

fun frontier :: "coverage_tree \<Rightarrow> FileCoverageNode list"
  and frontier_children :: "(segment \<times> coverage_tree) list \<Rightarrow> FileCoverageNode list" where
  "frontier (Node (Some v) cs) = [v]"
| "frontier (Node None cs) = frontier_children cs"
| "frontier_children [] = []"
| "frontier_children ((k, c) # rest) = frontier c @ frontier_children rest"

definition agg_statement :: "coverage_tree \<Rightarrow> ICoveredCount" where
  "agg_statement n = sum_list (map (\<lambda>v. statement (base v)) (frontier n))"

definition agg_branch :: "coverage_tree \<Rightarrow> ICoveredCount option" where
  "agg_branch n = opt_sum (map (\<lambda>v. branch (base v)) (frontier n))"

definition is_aggregate_of :: "FileCoverageNode \<Rightarrow> coverage_tree \<Rightarrow> bool" where
  "is_aggregate_of v n \<longleftrightarrow>
     (\<exists>a. v = ComputedFileCoverage a \<and> statement a = agg_statement n \<and>
        branch a = agg_branch n \<and> function' a = agg_branch n)"

text \<open>
  \<open>filled_from t\<^sub>1 t\<close>: the tree \<open>t\<close> is \<open>t\<^sub>1\<close> with some of its empty nodes
  filled in, each with the aggregate of the node of \<open>t\<^sub>1\<close> it stands for. This is
  what every step of the second loop keeps.
\<close>

fun filled_from :: "coverage_tree \<Rightarrow> coverage_tree \<Rightarrow> bool"
  and filled_children ::
    "(segment \<times> coverage_tree) list \<Rightarrow> (segment \<times> coverage_tree) list \<Rightarrow> bool" where
  "filled_from (Node v1 cs1) (Node v cs) \<longleftrightarrow>
     (case v1 of
        Some x \<Rightarrow> v = Some x
      | None \<Rightarrow> (case v of None \<Rightarrow> True | Some y \<Rightarrow> is_aggregate_of y (Node v1 cs1)))
     \<and> filled_children cs1 cs"
| "filled_children [] [] \<longleftrightarrow> True"
| "filled_children ((k1, c1) # r1) ((k, c) # r) \<longleftrightarrow>
     k1 = k \<and> filled_from c1 c \<and> filled_children r1 r"
| "filled_children [] (x # r) \<longleftrightarrow> False"
| "filled_children (x # r1) [] \<longleftrightarrow> False"

lemma agg_statement_valued [simp]: "agg_statement (Node (Some v) cs) = statement (base v)"
  by (simp add: agg_statement_def)

lemma agg_branch_valued [simp]: "agg_branch (Node (Some v) cs) = branch (base v)"
  by (cases "branch (base v)") (simp_all add: agg_branch_def)

lemma agg_statement_children:
  "sum_list (map (\<lambda>v. statement (base v)) (frontier_children cs)) =
     sum_list (map (\<lambda>(k, c). agg_statement c) cs)"
  by (induction cs) (auto simp: agg_statement_def)

lemma agg_branch_children:
  "opt_sum (map (\<lambda>v. branch (base v)) (frontier_children cs)) =
     opt_sum (map (\<lambda>(k, c). agg_branch c) cs)"
  by (induction cs) (auto simp: agg_branch_def)

lemma agg_statement_unvalued:
  "agg_statement (Node None cs) = sum_list (map (\<lambda>(k, c). agg_statement c) cs)"
  by (simp add: agg_statement_def agg_statement_children)

lemma agg_branch_unvalued:
  "agg_branch (Node None cs) = opt_sum (map (\<lambda>(k, c). agg_branch c) cs)"
  by (simp add: agg_branch_def agg_branch_children)

lemma filled_from_refl [simp]: "filled_from n n"
  and filled_children_refl [simp]: "filled_children cs cs"
  by (induction n and cs rule: wf_tree_wf_children.induct) (auto split: option.splits)

lemma filled_keys: "filled_children cs1 cs \<Longrightarrow> map fst cs = map fst cs1"
proof (induction cs1 arbitrary: cs)
  case Nil
  then show ?case by (cases cs) simp_all
next
  case (Cons a cs1)
  obtain k c1 where a: "a = (k, c1)" by (cases a)
  with Cons.prems obtain c r where cs: "cs = (k, c) # r" and r: "filled_children cs1 r"
    by (cases cs) auto
  from Cons.IH [OF r] cs a show ?case by simp
qed

lemma filled_wf [cov_wf]:
  "filled_from n1 n \<Longrightarrow> wf_tree n1 \<Longrightarrow> wf_tree n"
  "filled_children cs1 cs \<Longrightarrow> wf_children cs1 \<Longrightarrow> wf_children cs"
proof (induction n1 n and cs1 cs rule: filled_from_filled_children.induct)
  case (1 v1 cs1 v cs)
  then show ?case by (auto dest: filled_keys)
qed auto

lemma filled_nodes_keys:
  "filled_from n1 n \<Longrightarrow> map fst (nodes_of p n) = map fst (nodes_of p n1)"
  "filled_children cs1 cs \<Longrightarrow> map fst (nodes_children p cs) = map fst (nodes_children p cs1)"
proof (induction p n and p cs arbitrary: n1 and cs1 rule: nodes_of_nodes_children.induct)
  case (1 p v cs)
  then show ?case by (cases n1) auto
next
  case (2 p)
  then show ?case by (cases cs1) auto
next
  case (3 p k c rest)
  then show ?case by (cases cs1) auto
qed

section \<open>calculateComputed computes the aggregate\<close>

text \<open>
  Run on a node of a partly filled tree, \<^verbatim>\<open>calculateComputed\<close> returns a value
  with the counts promised for the node of the original tree, stores it, and
  leaves a tree that is again the original partly filled. The path it is given
  only goes into the \<^verbatim>\<open>uri\<close> of the values it makes.
\<close>

lemma calculate_unvalued:
  assumes "calculateChildren mk p cs
      \<lparr>uri = treePathToUri mk p, statement = emptyCounts, branch = None, function' = None,
       details = None\<rparr> = (fc', cs')"
    and "filled_children cs1 cs'"
    and "statement fc' = sum_list (map (\<lambda>(k, c). agg_statement c) cs1)"
    and "branch fc' = opt_sum (map (\<lambda>(k, c). agg_branch c) cs1)"
  shows "case calculateComputed mk p (Node None cs) of (v, n') \<Rightarrow>
    filled_from (Node None cs1) n' \<and> node_value n' = Some v \<and>
    statement (base v) = agg_statement (Node None cs1) \<and>
    branch (base v) = agg_branch (Node None cs1)"
  using assms
  by (simp add: is_aggregate_of_def agg_statement_unvalued agg_branch_unvalued
      ComputedFileCoverage_new_def Let_def)

lemma calculate_child:
  assumes "calculateComputed mk (p @ [k]) child = (v, child')"
    and "calculateChildren mk p rest (sumChild fc (base v)) = (fc', rest')"
    and "filled_from c1 child'" and "filled_children r1 rest'"
    and "statement (base v) = agg_statement c1" and "branch (base v) = agg_branch c1"
    and "statement fc' = statement (sumChild fc (base v))
          + sum_list (map (\<lambda>(k, c). agg_statement c) r1)"
    and "branch fc' = sumOptional (branch (sumChild fc (base v)))
          (opt_sum (map (\<lambda>(k, c). agg_branch c) r1))"
  shows "case calculateChildren mk p ((k, child) # rest) fc of (fc'', cs') \<Rightarrow>
    filled_children ((k, c1) # r1) cs' \<and>
    statement fc'' = statement fc + sum_list (map (\<lambda>(k, c). agg_statement c) ((k, c1) # r1)) \<and>
    branch fc'' = sumOptional (branch fc) (opt_sum (map (\<lambda>(k, c). agg_branch c) ((k, c1) # r1)))"
  using assms by (simp add: sumChild_def sumCounts_plus add.assoc sumOptional_assoc)

lemma calculate_refines:
  "filled_from n1 n \<Longrightarrow>
     (case calculateComputed mk p n of (v, n') \<Rightarrow>
        filled_from n1 n' \<and> node_value n' = Some v \<and>
        statement (base v) = agg_statement n1 \<and> branch (base v) = agg_branch n1)"
  "filled_children cs1 cs \<Longrightarrow>
     (case calculateChildren mk p cs fc of (fc', cs') \<Rightarrow>
        filled_children cs1 cs' \<and>
        statement fc' = statement fc + sum_list (map (\<lambda>(k, c). agg_statement c) cs1) \<and>
        branch fc' = sumOptional (branch fc) (opt_sum (map (\<lambda>(k, c). agg_branch c) cs1)))"
proof (induction mk p n and mk p cs fc arbitrary: n1 and cs1
    rule: calculateComputed_calculateChildren.induct)
  case (1 mk p v cs)
  then show ?case
    by (cases n1) (auto simp: is_aggregate_of_def split: option.splits)
next
  case (2 mk p cs)
  from "2.prems" obtain cs1 where n1: "n1 = Node None cs1" and fc: "filled_children cs1 cs"
    by (cases n1) (auto split: option.splits)
  obtain fc' cs' where r: "calculateChildren mk p cs
      \<lparr>uri = treePathToUri mk p, statement = emptyCounts, branch = None, function' = None,
       details = None\<rparr> = (fc', cs')"
    by (rule prod.exhaust)
  from "2.IH" [OF fc] r show ?case
    unfolding n1 by (intro calculate_unvalued [OF r]) (simp_all add: emptyCounts_zero)
next
  case (3 mk p fc)
  then show ?case by (cases cs1) simp_all
next
  case (4 mk p k child rest fc)
  from "4.prems" obtain c1 r1 where cs1: "cs1 = (k, c1) # r1"
    and c: "filled_from c1 child" and rest: "filled_children r1 rest"
    by (cases cs1) auto
  obtain v child' where r: "calculateComputed mk (p @ [k]) child = (v, child')"
    by (rule prod.exhaust)
  obtain fc' rest' where
    r': "calculateChildren mk p rest (sumChild fc (base v)) = (fc', rest')"
    by (rule prod.exhaust)
  from "4.IH"(1) [OF c] "4.IH"(2) [OF r [symmetric] refl rest] r r' show ?case
    unfolding cs1 by (intro calculate_child [OF r r']) simp_all
qed

section \<open>Reading and writing a partly filled tree\<close>

lemma filled_children_map_of:
  "filled_children cs1 cs \<Longrightarrow> map_of cs1 k = Some c1 \<Longrightarrow>
     \<exists>c. map_of cs k = Some c \<and> filled_from c1 c"
proof (induction cs1 arbitrary: cs)
  case Nil
  then show ?case by simp
next
  case (Cons a cs1)
  then show ?case by (cases a; cases cs) (auto split: if_splits)
qed

lemma filled_children_map_of_None:
  "filled_children cs1 cs \<Longrightarrow> map_of cs1 k = None \<longleftrightarrow> map_of cs k = None"
proof (induction cs1 arbitrary: cs)
  case Nil
  then show ?case by (cases cs) simp_all
next
  case (Cons a cs1)
  then show ?case by (cases a; cases cs) (auto split: if_splits)
qed

lemma filled_children_update_child:
  "filled_children cs1 cs \<Longrightarrow>
     (\<And>c1 c. map_of cs1 k = Some c1 \<Longrightarrow> filled_from c1 c \<Longrightarrow> filled_from c1 (g c)) \<Longrightarrow>
     filled_children cs1 (update_child k g cs)"
proof (induction cs1 arbitrary: cs)
  case Nil
  then show ?case by (cases cs) simp_all
next
  case (Cons a cs1)
  then show ?case by (cases a; cases cs) (auto split: if_splits)
qed

lemma filled_from_subtree:
  "filled_from t1 t \<Longrightarrow> subtree q t1 = Some n1 \<Longrightarrow>
     \<exists>n. subtree q t = Some n \<and> filled_from n1 n"
proof (induction q arbitrary: t1 t)
  case Nil
  then show ?case by simp
next
  case (Cons k q)
  obtain v1 cs1 v cs where t: "t1 = Node v1 cs1" "t = Node v cs"
    by (cases t1, cases t) auto
  with Cons.prems obtain c1 where c1: "map_of cs1 k = Some c1" and s: "subtree q c1 = Some n1"
    by (auto split: option.splits)
  from Cons.prems(1) t have "filled_children cs1 cs" by simp
  with c1 obtain c where "map_of cs k = Some c" and "filled_from c1 c"
    by (blast dest: filled_children_map_of)
  with Cons.IH [OF _ s] t show ?case by auto
qed

lemma filled_from_update_at:
  "filled_from t1 t \<Longrightarrow>
     (\<And>n1 n. subtree q t1 = Some n1 \<Longrightarrow> filled_from n1 n \<Longrightarrow> filled_from n1 (f n)) \<Longrightarrow>
     filled_from t1 (update_at q f t)"
proof (induction q arbitrary: t1 t)
  case Nil
  then show ?case by simp
next
  case (Cons k q)
  obtain v1 cs1 v cs where t: "t1 = Node v1 cs1" "t = Node v cs"
    by (cases t1, cases t) auto
  with Cons.prems(1) have fc: "filled_children cs1 cs" by simp
  have "filled_children cs1 (update_child k (update_at q f) cs)"
  proof (rule filled_children_update_child [OF fc])
    fix c1 c
    assume c1: "map_of cs1 k = Some c1" and c: "filled_from c1 c"
    show "filled_from c1 (update_at q f c)"
    proof (rule Cons.IH [OF c])
      fix n1 n
      assume "subtree q c1 = Some n1" and "filled_from n1 n"
      with c1 t show "filled_from n1 (f n)"
        by (intro Cons.prems(2)) simp_all
    qed
  qed
  with Cons.prems(1) t show ?case by (simp split: option.splits)
qed

lemma filled_from_find:
  assumes "filled_from t1 t" and "find_tree q t1 = Some x"
  shows "find_tree q t = Some x"
proof -
  from assms(2) obtain n1 where n1: "subtree q t1 = Some n1" and v: "node_value n1 = Some x"
    by (auto simp: find_tree_subtree split: option.splits)
  from filled_from_subtree [OF assms(1) n1] obtain n
    where n: "subtree q t = Some n" and f: "filled_from n1 n" by blast
  from f v have "node_value n = Some x" by (cases n1, cases n) auto
  with n show ?thesis by (simp add: find_tree_subtree)
qed

lemma filled_from_find_computed:
  assumes "filled_from t1 t" and "subtree q t1 = Some n1" and "node_value n1 = None"
    and "find_tree q t = Some y"
  shows "is_aggregate_of y n1"
proof -
  from filled_from_subtree [OF assms(1,2)] obtain n
    where n: "subtree q t = Some n" and f: "filled_from n1 n" by blast
  with assms(4) have "node_value n = Some y" by (simp add: find_tree_subtree)
  with f assms(3) show ?thesis by (cases n1, cases n) auto
qed

text \<open>One step of the second loop.\<close>

abbreviation compute_step :: "uri_from \<Rightarrow> tree_path \<Rightarrow> coverage_tree \<Rightarrow> coverage_tree" where
  "compute_step mk q t \<equiv> update_at q (\<lambda>node. snd (calculateComputed mk [] node)) t"

lemma calculateComputed_filled:
  "filled_from n1 n \<Longrightarrow> filled_from n1 (snd (calculateComputed mk p n))"
  using calculate_refines(1) [of n1 n mk p] by (auto split: prod.splits)

lemma calculateComputed_value:
  "node_value (snd (calculateComputed mk p n)) = Some (fst (calculateComputed mk p n))"
  using calculate_refines(1) [of n n mk p] by (auto split: prod.splits)

lemma compute_step_filled: "filled_from t1 t \<Longrightarrow> filled_from t1 (compute_step mk q t)"
  by (rule filled_from_update_at) (auto intro: calculateComputed_filled)

lemma compute_steps_filled:
  "filled_from t1 t \<Longrightarrow> filled_from t1 (fold (compute_step mk) qs t)"
  by (induction qs arbitrary: t) (auto intro: compute_step_filled)

lemma compute_step_sets:
  assumes "subtree q t \<noteq> None"
  shows "find_tree q (compute_step mk q t) \<noteq> None"
proof -
  from assms obtain n where "subtree q t = Some n" by auto
  then show ?thesis
    by (simp add: find_tree_subtree subtree_update_at calculateComputed_value)
qed

lemma compute_steps_keep:
  assumes "find_tree q t \<noteq> None"
  shows "find_tree q (fold (compute_step mk) qs t) \<noteq> None"
proof -
  from assms obtain x where "find_tree q t = Some x" by auto
  moreover have "filled_from t (fold (compute_step mk) qs t)"
    by (rule compute_steps_filled) simp
  ultimately show ?thesis by (auto dest: filled_from_find)
qed

lemma compute_steps_valued:
  "q \<in> set qs \<Longrightarrow> (\<And>q. q \<in> set qs \<Longrightarrow> subtree q t \<noteq> None) \<Longrightarrow>
     find_tree q (fold (compute_step mk) qs t) \<noteq> None"
proof (induction qs arbitrary: t)
  case Nil
  then show ?case by simp
next
  case (Cons a qs)
  have sub: "subtree r (compute_step mk a t) \<noteq> None" if "r \<in> set qs" for r
  proof -
    have "filled_from t (compute_step mk a t)" by (rule compute_step_filled) simp
    moreover from that Cons.prems(2) obtain n where "subtree r t = Some n" by fastforce
    ultimately show ?thesis by (auto dest: filled_from_subtree)
  qed
  show ?case
  proof (cases "q = a")
    case True
    from Cons.prems(2) [of a] have "subtree a t \<noteq> None" by simp
    with True have "find_tree q (compute_step mk a t) \<noteq> None"
      by (simp add: compute_step_sets)
    then show ?thesis by (simp add: compute_steps_keep)
  next
    case False
    with Cons.prems(1) have "q \<in> set qs" by simp
    then show ?thesis using sub by (simp add: Cons.IH)
  qed
qed

section \<open>The second loop as a whole\<close>

lemma computeNodes_filled: "filled_from t (computeNodes mk t)"
  unfolding computeNodes_def by (rule compute_steps_filled) simp

lemma computeNodes_wf [cov_wf]: "wf_tree t \<Longrightarrow> wf_tree (computeNodes mk t)"
  by (rule filled_wf(1) [OF computeNodes_filled])

lemma computeNodes_positions: "map fst (nodes (computeNodes mk t)) = map fst (nodes t)"
  unfolding nodes_def by (rule filled_nodes_keys(1) [OF computeNodes_filled])

lemma computeNodes_valued_at:
  assumes "wf_tree t" and "q \<in> fst ` set (nodes t)"
  shows "find_tree q (computeNodes mk t) \<noteq> None"
  unfolding computeNodes_def
proof (rule compute_steps_valued)
  from assms(2) show "q \<in> set (map fst (nodes t))" by simp
next
  fix r
  assume "r \<in> set (map fst (nodes t))"
  with assms(1) show "subtree r t \<noteq> None"
    by (auto simp: nodes_iff_subtree)
qed

lemma calculateComputed_valued_id:
  "node_value n \<noteq> None \<Longrightarrow> snd (calculateComputed mk p n) = n"
  by (cases n) auto

lemma compute_steps_id:
  "(\<And>q n. q \<in> set qs \<Longrightarrow> subtree q t = Some n \<Longrightarrow> node_value n \<noteq> None) \<Longrightarrow>
     fold (compute_step mk) qs t = t"
proof (induction qs)
  case Nil
  show ?case by simp
next
  case (Cons a qs)
  have "compute_step mk a t = t"
  proof (rule update_at_id)
    fix n
    assume "subtree a t = Some n"
    then have "node_value n \<noteq> None" by (rule Cons.prems [rotated]) simp
    then show "snd (calculateComputed mk [] n) = n" by (rule calculateComputed_valued_id)
  qed
  moreover have "fold (compute_step mk) qs t = t"
  proof (rule Cons.IH)
    fix q n
    assume "q \<in> set qs" and "subtree q t = Some n"
    then show "node_value n \<noteq> None" using Cons.prems [of q n] by simp
  qed
  ultimately show ?case by simp
qed

section \<open>The first loop\<close>

abbreviation leaf_key :: "IFileCoverage \<Rightarrow> tree_path" where
  "leaf_key file \<equiv> treePathForUri (uri file)"

lemma insertFiles_Nil [simp]: "insertFiles [] t = t"
  by (simp add: insertFiles_def)

lemma insertFiles_snoc [simp]:
  "insertFiles (files @ [file]) t =
     insert_tree (leaf_key file) (FileCoverage_new file 0) (insertFiles files t)"
  by (simp add: insertFiles_def)

lemma insertFiles_wf [cov_wf]: "wf_tree t \<Longrightarrow> wf_tree (insertFiles files t)"
  by (induction files rule: rev_induct) (simp_all add: wf_insert)

lemma find_insertFiles_absent:
  "key \<notin> leaf_key ` set files \<Longrightarrow> find_tree key (insertFiles files t) = find_tree key t"
  by (induction files rule: rev_induct) (auto simp: find_insert)

lemma find_insertFiles:
  "distinct (map leaf_key files) \<Longrightarrow> file \<in> set files \<Longrightarrow>
     find_tree (leaf_key file) (insertFiles files t) = Some (FileCoverage_new file 0)"
proof (induction files rule: rev_induct)
  case Nil
  then show ?case by simp
next
  case (snoc f files)
  show ?case
  proof (cases "file = f")
    case True
    then show ?thesis by simp
  next
    case False
    with snoc.prems have in_files: "file \<in> set files" by simp
    moreover from snoc.prems(1) have "leaf_key f \<notin> leaf_key ` set files" by simp
    ultimately have "leaf_key file \<noteq> leaf_key f" by (metis imageI)
    with snoc in_files show ?thesis by (simp add: find_insert)
  qed
qed

lemma find_insertFiles_leaf:
  "find_tree key (insertFiles files empty_tree) = Some v \<Longrightarrow>
     \<exists>file \<in> set files. key = leaf_key file \<and> v = FileCoverage_new file 0"
  by (induction files arbitrary: v rule: rev_induct) (auto simp: find_insert split: if_splits)

lemma root_keys_insert:
  "fst ` set (children (insert_tree (k # ks) x t)) = insert k (fst ` set (children t))"
  by (cases t) simp

lemma root_keys_insertFiles:
  "fst ` set (children (insertFiles files t)) =
     fst ` set (children t) \<union> (\<lambda>file. scheme (uri file)) ` set files"
  by (induction files rule: rev_induct) (auto simp: treePathForUri_def root_keys_insert)

lemma filled_root_keys:
  "filled_from t1 t \<Longrightarrow> fst ` set (children t) = fst ` set (children t1)"
proof -
  assume "filled_from t1 t"
  then have "map fst (children t) = map fst (children t1)"
    by (cases t1; cases t) (auto dest: filled_keys)
  then have "set (map fst (children t)) = set (map fst (children t1))" by simp
  then show ?thesis by simp
qed

lemma find_tree_no_child:
  "k \<notin> fst ` set (children t) \<Longrightarrow> find_tree (k # ks) t = None"
  by (cases t) (auto simp: map_of_eq_None_iff [symmetric] split: option.splits)

lemma createFileCoverage_root_keys:
  "fst ` set (children (createFileCoverage mk files)) = (\<lambda>file. scheme (uri file)) ` set files"
  by (simp add: createFileCoverage_def filled_root_keys [OF computeNodes_filled]
      root_keys_insertFiles empty_tree_def)

lemma findUri_no_root:
  assumes "path u = CHR ''/'' # rest"
    and "\<And>file. file \<in> set files \<Longrightarrow> scheme (uri file) \<noteq> []"
  shows "findUri u (createFileCoverage mk files) = None"
proof -
  have "[] \<notin> (\<lambda>file. scheme (uri file)) ` set files"
    using assms(2) by force
  then have "[] \<notin> fst ` set (children (createFileCoverage mk files))"
    unfolding createFileCoverage_root_keys .
  then show ?thesis
    by (simp add: findUri_def assms(1) find_tree_no_child)
qed

lemma treePathForUri_length: "3 \<le> length (treePathForUri u)"
  by (simp add: treePathForUri_def js_split_length)

section \<open>An example\<close>

text \<open>
  Two files of one directory, \<^verbatim>\<open>file:///a/b/x\<close> with statements 1 of 2 and
  \<^verbatim>\<open>file:///a/b/y\<close> with statements 3 of 4, branches 1 of 2 and functions 5 of
  7, and a stand-in for \<^verbatim>\<open>URI.from\<close>. The witnesses below run the definitions
  on them.
\<close>

definition file_x :: IFileCoverage where
  "file_x = \<lparr>uri = \<lparr>scheme = ''file'', authority = '''', path = ''/a/b/x''\<rparr>,
     statement = CoveredCount 1 2, branch = None, function' = None, details = None\<rparr>"

definition file_y :: IFileCoverage where
  "file_y = \<lparr>uri = \<lparr>scheme = ''file'', authority = '''', path = ''/a/b/y''\<rparr>,
     statement = CoveredCount 3 4, branch = Some (CoveredCount 1 2),
     function' = Some (CoveredCount 5 7), details = None\<rparr>"

definition example_uri_from :: uri_from where
  "example_uri_from s a p =
     \<lparr>scheme = (case s of None \<Rightarrow> [] | Some x \<Rightarrow> x),
      authority = (case a of None \<Rightarrow> [] | Some x \<Rightarrow> x), path = p\<rparr>"

definition dir_ab :: tree_path where
  "dir_ab = [''file'', '''', '''', ''a'', ''b'']"

definition example_leaves :: coverage_tree where
  "example_leaves = insertFiles [file_x, file_y] empty_tree"

definition node_ab :: coverage_tree where
  "node_ab = Node None
     [(''x'', Node (Some (FileCoverage_new file_x 0)) []),
      (''y'', Node (Some (FileCoverage_new file_y 0)) [])]"

lemmas example_defs = file_x_def file_y_def example_uri_from_def dir_ab_def
  example_leaves_def node_ab_def

section \<open>Properties\<close>

text \<open>
  Property C1 (refinement). In a well-formed tree, a node below the root that
  has no value has one after the second loop: a \<^verbatim>\<open>ComputedFileCoverage\<close> whose
  statement count is the sum of the statement counts of the node's frontier
  and whose branch count is the sum of the branch counts the frontier has.
\<close>

theorem computeNodes_aggregate:
  assumes "wf_tree t" and "subtree q t = Some n" and "q \<noteq> []" and "node_value n = None"
  shows "\<exists>a. find_tree q (computeNodes mk t) = Some (ComputedFileCoverage a) \<and>
    statement a = sum_list (map (\<lambda>v. statement (base v)) (frontier n)) \<and>
    branch a = opt_sum (map (\<lambda>v. branch (base v)) (frontier n))"
proof -
  from assms(1-3) have "(q, n) \<in> set (nodes t)"
    by (simp add: nodes_iff_subtree)
  then have "q \<in> fst ` set (nodes t)" by force
  with assms(1) obtain y where y: "find_tree q (computeNodes mk t) = Some y"
    using computeNodes_valued_at by blast
  with assms(2,4) have "is_aggregate_of y n"
    by (rule filled_from_find_computed [OF computeNodes_filled])
  with y show ?thesis
    by (auto simp: is_aggregate_of_def agg_statement_def agg_branch_def)
qed

theorem computeNodes_aggregate_witness:
  "wf_tree example_leaves \<and> subtree dir_ab example_leaves = Some node_ab \<and> dir_ab \<noteq> [] \<and>
   node_value node_ab = None \<and>
   (\<exists>a. find_tree dir_ab (computeNodes example_uri_from example_leaves)
          = Some (ComputedFileCoverage a) \<and>
      statement a = CoveredCount 4 6 \<and> branch a = Some (CoveredCount 1 2))"
proof -
  have h1: "wf_tree example_leaves" by code_simp
  have h2: "subtree dir_ab example_leaves = Some node_ab" by code_simp
  have h3: "dir_ab \<noteq> []" by (simp add: dir_ab_def)
  have h4: "node_value node_ab = None" by (simp add: node_ab_def)
  have s: "sum_list (map (\<lambda>v. statement (base v)) (frontier node_ab)) = CoveredCount 4 6"
    by code_simp
  have b: "opt_sum (map (\<lambda>v. branch (base v)) (frontier node_ab)) = Some (CoveredCount 1 2)"
    by code_simp
  from computeNodes_aggregate [OF h1 h2 h3 h4, of example_uri_from] h1 h2 h3 h4 s b
  show ?thesis by simp
qed

text \<open>
  Property C2 (safety). The second loop never overwrites a value: what \<^verbatim>\<open>find\<close>
  returned before it, \<^verbatim>\<open>find\<close> returns after it, so the leaves of the first
  loop are the leaves of the finished tree.
\<close>

theorem computeNodes_keeps_values:
  "find_tree q t = Some x \<Longrightarrow> find_tree q (computeNodes mk t) = Some x"
  by (rule filled_from_find [OF computeNodes_filled])

theorem computeNodes_keeps_values_witness:
  "find_tree (dir_ab @ [''x'']) example_leaves = Some (FileCoverage_new file_x 0) \<and>
   find_tree (dir_ab @ [''x'']) (computeNodes example_uri_from example_leaves)
     = Some (FileCoverage_new file_x 0)"
proof -
  have h: "find_tree (dir_ab @ [''x'']) example_leaves = Some (FileCoverage_new file_x 0)"
    by code_simp
  from computeNodes_keeps_values [OF h] h show ?thesis by simp
qed

text \<open>
  Property C16 (invariant). After the second loop every node that \<^verbatim>\<open>nodes\<close>
  yields has a value, as the comment on \<^verbatim>\<open>TestCoverageFileNode\<close> says.
\<close>

theorem computeNodes_all_valued:
  assumes "wf_tree t" and "(q, n) \<in> set (nodes (computeNodes mk t))"
  shows "node_value n \<noteq> None"
proof -
  from assms(1) have wf: "wf_tree (computeNodes mk t)" by (rule computeNodes_wf)
  with assms(2) have n: "subtree q (computeNodes mk t) = Some n"
    by (simp add: nodes_iff_subtree)
  from assms(2) have "q \<in> set (map fst (nodes (computeNodes mk t)))" by force
  then have "q \<in> fst ` set (nodes t)" by (simp add: computeNodes_positions)
  with assms(1) have "find_tree q (computeNodes mk t) \<noteq> None"
    by (rule computeNodes_valued_at)
  with n show ?thesis by (simp add: find_tree_subtree)
qed

theorem computeNodes_all_valued_witness:
  "wf_tree example_leaves \<and>
   (dir_ab, snd (calculateComputed example_uri_from (tl dir_ab) node_ab))
     \<in> set (nodes (computeNodes example_uri_from example_leaves)) \<and>
   node_value (snd (calculateComputed example_uri_from (tl dir_ab) node_ab)) \<noteq> None"
proof -
  have h1: "wf_tree example_leaves" by code_simp
  have h2: "(dir_ab, snd (calculateComputed example_uri_from (tl dir_ab) node_ab))
     \<in> set (nodes (computeNodes example_uri_from example_leaves))" by code_simp
  from computeNodes_all_valued [OF h1 h2] h1 h2 show ?thesis by simp
qed

text \<open>
  Property C38 (equivalence). Running the second loop again, with whatever
  \<^verbatim>\<open>URI.from\<close>, changes nothing: every node is computed once.
\<close>

theorem computeNodes_idempotent:
  assumes "wf_tree t"
  shows "computeNodes mk' (computeNodes mk t) = computeNodes mk t"
proof -
  let ?T = "computeNodes mk t"
  have "fold (compute_step mk') (map fst (nodes ?T)) ?T = ?T"
  proof (rule compute_steps_id)
    fix q n
    assume "q \<in> set (map fst (nodes ?T))" and n: "subtree q ?T = Some n"
    then have "q \<in> fst ` set (nodes t)" by (simp add: computeNodes_positions)
    with assms have "find_tree q ?T \<noteq> None" by (rule computeNodes_valued_at)
    with n show "node_value n \<noteq> None" by (simp add: find_tree_subtree)
  qed
  then show ?thesis by (simp add: computeNodes_def [of mk' ?T])
qed

theorem computeNodes_idempotent_witness:
  "wf_tree example_leaves \<and>
   computeNodes (\<lambda>s a p. \<lparr>scheme = p, authority = p, path = p\<rparr>)
     (computeNodes example_uri_from example_leaves)
   = computeNodes example_uri_from example_leaves"
proof -
  have h1: "wf_tree example_leaves" by code_simp
  from computeNodes_idempotent [OF h1] h1 show ?thesis by simp
qed

text \<open>
  Property C4 (roundtrip). When the files have distinct keys, \<^verbatim>\<open>find\<close> under
  the key of a file returns the leaf made for that file, in the finished tree.
\<close>

theorem createFileCoverage_finds_leaf:
  assumes "distinct (map (\<lambda>file. treePathForUri (uri file)) files)" and "file \<in> set files"
  shows "find_tree (treePathForUri (uri file)) (createFileCoverage mk files)
    = Some (FileCoverage_new file 0)"
  unfolding createFileCoverage_def
  by (rule filled_from_find [OF computeNodes_filled]) (rule find_insertFiles [OF assms])

theorem createFileCoverage_finds_leaf_witness:
  "distinct (map (\<lambda>file. treePathForUri (uri file)) [file_x, file_y]) \<and>
   file_y \<in> set [file_x, file_y] \<and>
   find_tree (treePathForUri (uri file_y)) (createFileCoverage example_uri_from [file_x, file_y])
     = Some (FileCoverage_new file_y 0)"
proof -
  have h1: "distinct (map (\<lambda>file. treePathForUri (uri file)) [file_x, file_y])" by code_simp
  have h2: "file_y \<in> set [file_x, file_y]" by simp
  from createFileCoverage_finds_leaf [OF h1 h2] h1 h2 show ?thesis by simp
qed

text \<open>
  Property C24 (functional). \<^verbatim>\<open>getUri\<close> looks a resource up under the segments
  of its path alone, while the files are stored under scheme, authority and
  path: for a path that begins with a slash, and files whose schemes are not
  empty, the lookup finds nothing, whatever was inserted.
\<close>

theorem findUri_misses:
  assumes "path u = CHR ''/'' # rest"
    and "\<And>file. file \<in> set files \<Longrightarrow> scheme (uri file) \<noteq> []"
  shows "findUri u (createFileCoverage mk files) = None"
  using assms by (rule findUri_no_root)

theorem findUri_misses_witness:
  "path (uri file_x) = CHR ''/'' # ''a/b/x'' \<and>
   scheme (uri file_x) \<noteq> [] \<and> scheme (uri file_y) \<noteq> [] \<and>
   findUri (uri file_x) (createFileCoverage example_uri_from [file_x, file_y]) = None"
proof -
  have h1: "path (uri file_x) = CHR ''/'' # ''a/b/x''" by (simp add: file_x_def)
  have h2: "scheme (uri f) \<noteq> []" if "f \<in> set [file_x, file_y]" for f
    using that by (auto simp: file_x_def file_y_def)
  have "findUri (uri file_x) (createFileCoverage example_uri_from [file_x, file_y]) = None"
    using h1 by (rule findUri_misses) (rule h2)
  with h1 h2 [of file_x] h2 [of file_y] show ?thesis by simp
qed

text \<open>
  Decoding the key of a resource hands \<^verbatim>\<open>URI.from\<close>
  the scheme, the authority and the path of the resource.
\<close>

theorem treePath_roundtrip:
  "treePathToUri mk (treePathForUri u) = mk (Some (scheme u)) (Some (authority u)) (path u)"
  by (simp add: treePathToUri_def treePathForUri_def)

text \<open>
  The finished tree is well formed: at every node the
  keys of the children are distinct, as the keys of a \<^verbatim>\<open>Map\<close> are.
\<close>

theorem createFileCoverage_wf: "wf_tree (createFileCoverage mk files)"
  by (simp add: createFileCoverage_def computeNodes_wf insertFiles_wf)

end
