(* ===== verification/Coverage_Session.thy ===== *)
theory Coverage_Session
  imports Coverage_Aggregation
begin

text \<open>
  The two users of the caching protocol in \<^verbatim>\<open>testCoverage.ts\<close>: the session,
  class \<^verbatim>\<open>TestCoverage\<close> with \<^verbatim>\<open>getAllFiles\<close> and \<^verbatim>\<open>getUri\<close> (lines 210--235),
  whose slot \<^verbatim>\<open>fileCoverage\<close> caches the tree, and the leaf, class
  \<^verbatim>\<open>FileCoverage\<close> with \<^verbatim>\<open>details\<close> (lines 343--352), whose slot \<^verbatim>\<open>_details\<close>
  caches the details of one file. Both are instances of the machine of
  \<open>Promise_Cache\<close>; the provider \<^verbatim>\<open>ICoverageAccessor\<close> is its environment: a
  call of the provider is an entry of \<open>asked\<close>, its answer an event.
\<close>

section \<open>The session\<close>

type_synonym 'e session = "(coverage_tree, 'e, unit) cache"

text \<open>A new session has built nothing.\<close>

definition TestCoverage_new :: "'e session" where
  "TestCoverage_new = fresh Undefined"

text \<open>\<^verbatim>\<open>getAllFiles\<close> up to its \<^verbatim>\<open>await\<close>; the provider takes the token only.\<close>

definition getAllFiles :: "nat \<Rightarrow> 'e session \<Rightarrow> 'e session" where
  "getAllFiles c s = call () c s"

text \<open>
  The provider answers \<^verbatim>\<open>provideFileCoverage\<close>: \<^verbatim>\<open>createFileCoverage\<close> resumes
  from its \<^verbatim>\<open>await\<close>, builds the tree, and its promise is fulfilled with it;
  when the provider fails, \<^verbatim>\<open>createFileCoverage\<close> throws what it was given.
\<close>

definition provideFileCoverage ::
    "uri_from \<Rightarrow> nat \<Rightarrow> 'e + IFileCoverage list \<Rightarrow> (coverage_tree, 'e) event" where
  "provideFileCoverage mk p r =
     Settle p (case r of Inl e \<Rightarrow> Inl e | Inr files \<Rightarrow> Inr (createFileCoverage mk files))"

text \<open>
  \<^verbatim>\<open>getUri\<close> from its \<^verbatim>\<open>await\<close> of \<^verbatim>\<open>getAllFiles\<close> on: it looks the resource up
  in the tree, or throws what \<^verbatim>\<open>getAllFiles\<close> threw.
\<close>

definition getUri :: "URI \<Rightarrow> 'e + coverage_tree \<Rightarrow> 'e + FileCoverageNode option" where
  "getUri u r = (case r of Inl e \<Rightarrow> Inl e | Inr files \<Rightarrow> Inr (findUri u files))"

section \<open>The leaf\<close>

type_synonym 'e leaf = "(CoverageDetails list, 'e, nat) cache"

text \<open>
  The slot of a leaf starts with the details its record came with, if any.
  A \<^verbatim>\<open>ComputedFileCoverage\<close> has no slot and no method \<^verbatim>\<open>details\<close>.
\<close>

fun FileCoverage_slot :: "FileCoverageNode \<Rightarrow> 'e leaf option" where
  "FileCoverage_slot (FileCoverage b i d) = Some (fresh d)"
| "FileCoverage_slot (ComputedFileCoverage b) = None"

text \<open>
  \<^verbatim>\<open>details\<close> up to its \<^verbatim>\<open>await\<close>: the resolver is called with the index of
  the leaf.
\<close>

fun FileCoverage_details :: "FileCoverageNode \<Rightarrow> nat \<Rightarrow> 'e leaf \<Rightarrow> 'e leaf option" where
  "FileCoverage_details (FileCoverage b i d) c s = Some (call i c s)"
| "FileCoverage_details (ComputedFileCoverage b) c s = None"

text \<open>The first call of \<^verbatim>\<open>details\<close> on a node as it was constructed.\<close>

definition first_details :: "FileCoverageNode \<Rightarrow> nat \<Rightarrow> 'e leaf option" where
  "first_details node c =
     (case FileCoverage_slot node of None \<Rightarrow> None | Some s \<Rightarrow> FileCoverage_details node c s)"

lemmas session_defs [cov_defs] =
  TestCoverage_new_def getAllFiles_def provideFileCoverage_def getUri_def first_details_def

section \<open>Lemmas\<close>

lemma step_getAllFiles [simp]: "step () (Call c) s = Some (getAllFiles c s)"
  by (simp add: getAllFiles_def)

lemma coherent_TestCoverage_new [cov_wf, simp]: "coherent TestCoverage_new"
  by (simp add: TestCoverage_new_def coherent_fresh)

text \<open>One round of the session: callers, the answer of the provider, the job.\<close>

definition session_round ::
    "uri_from \<Rightarrow> nat list \<Rightarrow> 'e + IFileCoverage list \<Rightarrow> 'e session \<Rightarrow> (coverage_tree, 'e) event list"
    where
  "session_round mk cs r s =
     map Call cs @ [provideFileCoverage mk (length (promises s)) r, Run]"

lemma session_round_eq:
  "session_round mk cs r s =
     one_round cs (case r of Inl e \<Rightarrow> Inl e | Inr files \<Rightarrow> Inr (createFileCoverage mk files)) s"
  by (simp add: session_round_def one_round_def provideFileCoverage_def)

lemma FileCoverage_new_details:
  "first_details (FileCoverage_new file i) c =
     Some (call i c (fresh (case details file of None \<Rightarrow> Undefined | Some ds \<Rightarrow> Ready ds)))"
  by (simp add: first_details_def FileCoverage_new_def)

text \<open>
  \<^verbatim>\<open>getUri\<close> on the tree of a session: the lookup under the segments of the
  path finds no file whose scheme is not empty.
\<close>

lemma getUri_undefined:
  assumes "path u = CHR ''/'' # rest"
    and "\<And>file. file \<in> set files \<Longrightarrow> scheme (uri file) \<noteq> []"
  shows "getUri u (Inr (createFileCoverage mk files)) = Inr None"
  using findUri_no_root [OF assms] by (simp add: getUri_def)

lemma getUri_throws [simp]: "getUri u (Inl e) = Inl e"
  by (simp add: getUri_def)

section \<open>Properties\<close>

text \<open>
  Property C7 (functional). Callers share one construction. When callers
  \<open>c # cs\<close> call \<^verbatim>\<open>getAllFiles\<close> on a new session before the provider has
  answered, the provider is asked once, every one of them returns the tree
  built from the files of the answer, and a caller that comes later returns
  the same tree without another request.
\<close>

theorem getAllFiles_shared:
  "exec () (session_round mk (c # cs) (Inr files) TestCoverage_new @ [Call c', Run])
       TestCoverage_new =
     Some \<lparr>slot = Promise 0, promises = [Fulfilled (createFileCoverage mk files)],
       waiters = [], jobs = [], asked = [()],
       returned = map (\<lambda>c. (c, Inr (createFileCoverage mk files))) (c # cs @ [c'])\<rparr>"
proof -
  let ?s0 = "TestCoverage_new :: 'a session"
  have s0: "slot ?s0 = Undefined" "waiters ?s0 = []" "jobs ?s0 = []"
    by (simp_all add: TestCoverage_new_def fresh_def)
  show ?thesis
    unfolding exec_append session_round_eq exec_round [OF s0]
    by (simp add: TestCoverage_new_def cache_defs)
qed

text \<open>
  Property C9 (error). Failure, then retry. When the provider fails, every
  caller that waited throws the error of the provider, the slot is cleared,
  and the next call of \<^verbatim>\<open>getAllFiles\<close> asks the provider again.
\<close>

theorem getAllFiles_retries:
  "exec () (session_round mk (c # cs) (Inl e) TestCoverage_new @ [Call c']) TestCoverage_new =
     Some \<lparr>slot = Promise 1, promises = [Rejected e, Pending],
       waiters = [(1, c')], jobs = [], asked = [(), ()],
       returned = map (\<lambda>c. (c, Inl e)) (c # cs)\<rparr>"
proof -
  let ?s0 = "TestCoverage_new :: 'a session"
  have s0: "slot ?s0 = Undefined" "waiters ?s0 = []" "jobs ?s0 = []"
    by (simp_all add: TestCoverage_new_def fresh_def)
  show ?thesis
    unfolding exec_append session_round_eq exec_round [OF s0]
    by (simp add: TestCoverage_new_def cache_defs nth_opt_def)
qed

text \<open>
  Property C35 (functional). A leaf whose record came with its details never
  asks the resolver: whatever happens to the leaf, the slot keeps the details
  and every call of \<^verbatim>\<open>details\<close> is resumed with them.
\<close>

theorem details_given:
  assumes "details file = Some ds"
    and "FileCoverage_slot (FileCoverage_new file i) = Some s"
    and "exec i evs s = Some s'"
  shows "asked s' = [] \<and>
    FileCoverage_details (FileCoverage_new file i) c s' = Some (s'\<lparr>jobs := jobs s' @ [[(c, Inr ds)]]\<rparr>)"
proof -
  from assms(1,2) have s: "s = fresh (Ready ds)" by (simp add: FileCoverage_new_def)
  have "coherent s" unfolding s by (rule coherent_fresh)
  moreover have "holds s ds" by (simp add: s holds_def fresh_def)
  ultimately have "asked s' = asked s" and "holds s' ds"
    using assms(3) by (rule holds_exec)+
  with s show ?thesis
    by (simp add: FileCoverage_new_def holds_call [of s' ds] fresh_def)
qed

theorem details_given_witness:
  "details (file_x\<lparr>details := Some []\<rparr>) = Some [] \<and>
   map_option asked (exec 3 [Call 1, Run, Call 2]
     (fresh (Ready []) :: (CoverageDetails list, string, nat) cache)) = Some []"
proof -
  let ?file = "file_x\<lparr>details := Some []\<rparr>"
  let ?s = "fresh (Ready []) :: (CoverageDetails list, string, nat) cache"
  have d: "details ?file = Some []" by simp
  have s: "FileCoverage_slot (FileCoverage_new ?file 3) = Some ?s"
    by (simp add: FileCoverage_new_def)
  obtain s' where e: "exec 3 [Call 1, Run, Call 2] ?s = Some s'"
    by (simp add: cache_defs)
  from details_given [OF d s e] d show ?thesis by (simp only: e option.map)
qed

text \<open>
  Property C18 (functional). The resolver is asked for file 0. Whatever the
  position of a file in the answer of the provider, the leaf that the
  session holds for it asks \<^verbatim>\<open>resolveFileCoverage\<close> with index 0 when its
  details are first wanted.
\<close>

theorem details_asks_index_zero:
  assumes "distinct (map (\<lambda>file. treePathForUri (uri file)) files)"
    and "file \<in> set files" and "details file = None"
  shows "\<exists>node. find_tree (treePathForUri (uri file)) (createFileCoverage mk files) = Some node \<and>
    map_option asked (first_details node c) = Some [0]"
proof -
  have "find_tree (treePathForUri (uri file)) (createFileCoverage mk files)
      = Some (FileCoverage_new file 0)"
    unfolding createFileCoverage_def
    by (rule filled_from_find [OF computeNodes_filled]) (rule find_insertFiles [OF assms(1,2)])
  moreover have "map_option asked (first_details (FileCoverage_new file 0) c) = Some [0]"
    by (simp add: FileCoverage_new_details assms(3) cache_defs)
  ultimately show ?thesis by blast
qed

theorem details_asks_index_zero_witness:
  "distinct (map (\<lambda>file. treePathForUri (uri file)) [file_x, file_y]) \<and>
   nth_opt [file_x, file_y] 1 = Some file_y \<and> details file_y = None \<and>
   (\<exists>node. find_tree (treePathForUri (uri file_y))
        (createFileCoverage example_uri_from [file_x, file_y]) = Some node \<and>
      map_option asked (first_details node 1) = Some [0])"
proof -
  have h1: "distinct (map (\<lambda>file. treePathForUri (uri file)) [file_x, file_y])" by code_simp
  have h2: "file_y \<in> set [file_x, file_y]" by simp
  have h3: "details file_y = None" by (simp add: file_y_def)
  have h4: "nth_opt [file_x, file_y] 1 = Some file_y" by simp
  from details_asks_index_zero [OF h1 h2 h3] h1 h3 h4 show ?thesis by blast
qed

end
