(* ===== verification/Fetch.thy ===== *)
theory Fetch
  imports Coverage_Prelude
begin

text \<open>
  The download functions of \<^verbatim>\<open>build/lib/fetch.js\<close> (lines 1--137): \<^verbatim>\<open>fetchUrl\<close>,
  which requests a URL and tries again when the request fails, \<^verbatim>\<open>fetchUrls\<close>,
  which does so for a list of URLs under a base, and \<^verbatim>\<open>fetchGithub\<close>, which
  looks an asset up in a release and downloads it.

  The network is an input: \<open>respond env url k\<close> is what the \<open>k\<close>-th request for
  \<open>url\<close> meets. The state \<open>net\<close> records the requests made, the lines logged
  and the time slept between attempts. An \<^verbatim>\<open>Error\<close> is a value of \<open>fetch_error\<close>
  and a function that can throw returns \<open>fetch_error + 'a\<close>. The hash, the
  JSON parser, \<^verbatim>\<open>path.dirname\<close> and base64 are fields of the environment.
\<close>

section \<open>Data\<close>

type_synonym buffer = string
type_synonym headers = "(string \<times> string) list"

text \<open>A property that may be \<^verbatim>\<open>undefined\<close>, \<^verbatim>\<open>null\<close> or a value.\<close>

datatype 'a nullable = Absent | Null | Present 'a

text \<open>
  The options \<^verbatim>\<open>fetchUrl\<close> reads are those of \<^verbatim>\<open>IFetchOptions\<close>; \<^verbatim>\<open>fetchGithub\<close>
  takes three of them and the release to look in.
\<close>

record ICommonOptions =
  verbose_opt :: "bool option"
  path_opt :: "string option"
  checksumSha256 :: "string option"

record IFetchOptions = ICommonOptions +
  base_opt :: "string nullable"
  nodeFetchOptions :: headers

datatype asset_filter = NameIs string | NameFilter "string \<Rightarrow> bool"

record IGitHubAssetOptions = ICommonOptions +
  version :: string
  name_opt :: asset_filter

record VinylFile =
  cwd :: string
  base_dir :: "string nullable"
  file_path :: string
  contents :: buffer

text \<open>
  The errors. \<open>Unhandled\<close> is what the asynchronous stage of \<^verbatim>\<open>fetchGithub\<close> throws
  outside its \<^verbatim>\<open>try\<close>: a rejection nobody handles, not an event of the stream.
  \<open>Upstream\<close> marks an error of the stream that was piped into another: the
  stream that \<^verbatim>\<open>pipe\<close> returns does not emit it.
\<close>

datatype fetch_error =
    Thrown string
  | ChecksumMismatch string string string
  | RequestFailed string int
  | AssetNotFound string string
  | Unhandled string
  | Upstream fetch_error

record response =
  ok :: bool
  status :: int
  arrayBuffer :: "string + buffer"

datatype fetch_outcome = Rejects string | Resolves response

datatype log_event =
    StartFetching string "int option"
  | FetchCompleted int
  | ChecksumVerified string
  | ChecksumSkipped string
  | FetchedBody nat
  | FetchFailed string fetch_error

record asset =
  asset_name :: string
  asset_url :: string

record fetch_env =
  respond :: "string \<Rightarrow> nat \<Rightarrow> fetch_outcome"
  sha256 :: "buffer \<Rightarrow> string"
  dirname :: "string \<Rightarrow> string"
  parse_assets :: "buffer \<Rightarrow> string + asset list"
  github_token :: "string option"
  base64 :: "string \<Rightarrow> string"

record net =
  requested :: "(string \<times> headers) list"
  logged :: "log_event list"
  slept :: int

type_synonym 'a fetch_result = "fetch_error + 'a"

section \<open>One attempt\<close>

text \<open>A string option as a condition: \<^verbatim>\<open>undefined\<close> and \<^verbatim>\<open>''\<close> are false.\<close>

fun truthy :: "string option \<Rightarrow> bool" where
  "truthy None = False"
| "truthy (Some x) = (x \<noteq> [])"

definition log_verbose :: "bool \<Rightarrow> log_event \<Rightarrow> net \<Rightarrow> net" where
  "log_verbose verbose ev s = (if verbose then s\<lparr>logged := logged s @ [ev]\<rparr> else s)"

definition requests_of :: "string \<Rightarrow> net \<Rightarrow> nat" where
  "requests_of url s = count_list (map fst (requested s)) url"

definition request :: "fetch_env \<Rightarrow> string \<Rightarrow> headers \<Rightarrow> net \<Rightarrow> fetch_outcome \<times> net" where
  "request env url hs s =
     (respond env url (requests_of url s), s\<lparr>requested := requested s @ [(url, hs)]\<rparr>)"

text \<open>Lines 70--75: the file a successful attempt returns.\<close>

definition newVinylFile :: "fetch_env \<Rightarrow> string \<Rightarrow> IFetchOptions \<Rightarrow> buffer \<Rightarrow> VinylFile" where
  "newVinylFile env url options body =
     \<lparr>cwd = ''/'',
      base_dir = (if truthy (path_opt options)
                  then Present (dirname env (the (path_opt options)))
                  else base_opt options),
      file_path = (case path_opt options of None \<Rightarrow> url | Some p \<Rightarrow> p),
      contents = body\<rparr>"

text \<open>Lines 53--77: what is made of a response.\<close>

definition receive ::
    "fetch_env \<Rightarrow> string \<Rightarrow> IFetchOptions \<Rightarrow> bool \<Rightarrow> response \<Rightarrow> net
      \<Rightarrow> VinylFile fetch_result \<times> net" where
  "receive env url options verbose res s =
     (if ok res \<and> 200 \<le> status res \<and> status res < 300 then
        (case arrayBuffer res of
           Inl msg \<Rightarrow> (Inl (Thrown msg), s)
         | Inr body \<Rightarrow>
             (if truthy (checksumSha256 options) then
                (let actualSHA256Checksum = sha256 env body
                 in if Some actualSHA256Checksum \<noteq> checksumSha256 options
                    then (Inl (ChecksumMismatch url (the (checksumSha256 options))
                                 actualSHA256Checksum), s)
                    else (Inr (newVinylFile env url options body),
                          log_verbose verbose (FetchedBody (length body))
                            (log_verbose verbose (ChecksumVerified url) s)))
              else (Inr (newVinylFile env url options body),
                    log_verbose verbose (FetchedBody (length body))
                      (log_verbose verbose (ChecksumSkipped url) s))))
      else (Inl (RequestFailed url (status res)), s))"

text \<open>Lines 38--81: the body of the outer \<^verbatim>\<open>try\<close>.\<close>

definition attempt ::
    "fetch_env \<Rightarrow> string \<Rightarrow> IFetchOptions \<Rightarrow> bool \<Rightarrow> int \<Rightarrow> net
      \<Rightarrow> VinylFile fetch_result \<times> net" where
  "attempt env url options verbose retries s =
     (let s1 = log_verbose verbose
                 (StartFetching url (if retries \<noteq> 10 then Some (10 - retries) else None)) s;
          (out, s2) = request env url (nodeFetchOptions options) s1
      in case out of
           Rejects msg \<Rightarrow> (Inl (Thrown msg), s2)
         | Resolves res \<Rightarrow>
             receive env url options verbose res (log_verbose verbose (FetchCompleted (status res)) s2))"

section \<open>fetchUrl\<close>

definition sleep :: "int \<Rightarrow> net \<Rightarrow> net" where
  "sleep ms s = s\<lparr>slept := slept s + ms\<rparr>"

function fetchUrl ::
    "fetch_env \<Rightarrow> string \<Rightarrow> IFetchOptions \<Rightarrow> int \<Rightarrow> int \<Rightarrow> net
      \<Rightarrow> VinylFile fetch_result \<times> net" where
  "fetchUrl env url options retries retryDelay s =
     (let verbose = (verbose_opt options = Some True);
          (r, s1) = attempt env url options verbose retries s
      in case r of
           Inr file \<Rightarrow> (Inr file, s1)
         | Inl e \<Rightarrow>
             (let s2 = log_verbose verbose (FetchFailed url e) s1
              in if retries > 0
                 then fetchUrl env url options (retries - 1) retryDelay (sleep retryDelay s2)
                 else (Inl e, s2)))"
  by pat_completeness auto

termination
  by (relation "measure (\<lambda>(env, url, options, retries, retryDelay, s). nat retries)") auto

declare fetchUrl.simps [simp del]

section \<open>What an attempt returns\<close>

text \<open>
  The result of an attempt as a function of what the request met: the
  specification of lines 43--81 without the state.
\<close>

fun outcome_result ::
    "fetch_env \<Rightarrow> string \<Rightarrow> IFetchOptions \<Rightarrow> fetch_outcome \<Rightarrow> VinylFile fetch_result" where
  "outcome_result env url options (Rejects msg) = Inl (Thrown msg)"
| "outcome_result env url options (Resolves res) =
     (if \<not> (ok res \<and> 200 \<le> status res \<and> status res < 300)
      then Inl (RequestFailed url (status res))
      else case arrayBuffer res of
        Inl msg \<Rightarrow> Inl (Thrown msg)
      | Inr body \<Rightarrow>
          (case checksumSha256 options of
             None \<Rightarrow> Inr (newVinylFile env url options body)
           | Some expected \<Rightarrow>
               if expected = [] \<or> sha256 env body = expected
               then Inr (newVinylFile env url options body)
               else Inl (ChecksumMismatch url expected (sha256 env body))))"

definition accepts :: "fetch_env \<Rightarrow> string \<Rightarrow> IFetchOptions \<Rightarrow> nat \<Rightarrow> bool" where
  "accepts env url options k = (\<not> isl (outcome_result env url options (respond env url k)))"

text \<open>
  The first index from \<open>n\<close> on at which \<open>P\<close> holds, looking at \<open>budget\<close> indices
  after \<open>n\<close> at most: \<open>n + budget\<close> when there is none before.
\<close>

fun first_ok :: "(nat \<Rightarrow> bool) \<Rightarrow> nat \<Rightarrow> nat \<Rightarrow> nat" where
  "first_ok P n 0 = n"
| "first_ok P n (Suc budget) = (if P n then n else first_ok P (Suc n) budget)"

lemma first_ok_bounds: "n \<le> first_ok P n b \<and> first_ok P n b \<le> n + b"
proof (induction b arbitrary: n)
  case 0
  show ?case by simp
next
  case (Suc b)
  from Suc [of "Suc n"] show ?case by auto
qed

lemma first_ok_before: "n \<le> j \<Longrightarrow> j < first_ok P n b \<Longrightarrow> \<not> P j"
proof (induction b arbitrary: n)
  case 0
  then show ?case by simp
next
  case (Suc b)
  show ?case
  proof (cases "j = n")
    case True
    with Suc.prems show ?thesis by (auto split: if_splits)
  next
    case False
    with Suc.prems have "Suc n \<le> j" and "j < first_ok P (Suc n) b"
      by (auto split: if_splits)
    then show ?thesis by (rule Suc.IH)
  qed
qed

lemma first_ok_holds: "first_ok P n b < n + b \<Longrightarrow> P (first_ok P n b)"
  by (induction b arbitrary: n) (auto split: if_splits)

lemma first_okI:
  "n \<le> k \<Longrightarrow> k \<le> n + b \<Longrightarrow> P k \<Longrightarrow> (\<And>j. n \<le> j \<Longrightarrow> j < k \<Longrightarrow> \<not> P j)
    \<Longrightarrow> first_ok P n b = k"
proof (induction b arbitrary: n)
  case 0
  then show ?case by simp
next
  case (Suc b)
  show ?case
  proof (cases "k = n")
    case True
    with Suc.prems show ?thesis by simp
  next
    case False
    with Suc.prems have "\<not> P n" and "Suc n \<le> k" by auto
    with Suc.prems Suc.IH [of "Suc n"] show ?thesis by simp
  qed
qed

lemma first_ok_iff:
  "P (first_ok P n b) \<longleftrightarrow> (\<exists>k\<le>b. P (n + k))"
proof
  assume "P (first_ok P n b)"
  moreover from first_ok_bounds [of n P b]
  have "first_ok P n b = n + (first_ok P n b - n)" and "first_ok P n b - n \<le> b" by auto
  ultimately show "\<exists>k\<le>b. P (n + k)" by metis
next
  assume "\<exists>k\<le>b. P (n + k)"
  then obtain k where k: "k \<le> b" "P (n + k)" by blast
  show "P (first_ok P n b)"
  proof (cases "first_ok P n b < n + b")
    case True
    then show ?thesis by (rule first_ok_holds)
  next
    case False
    with first_ok_bounds [of n P b] have last: "first_ok P n b = n + b" by simp
    show ?thesis
    proof (cases "k = b")
      case True
      with k last show ?thesis by simp
    next
      case False
      with k last have "n \<le> n + k" and "n + k < first_ok P n b" by simp_all
      then have "\<not> P (n + k)" by (rule first_ok_before)
      with k show ?thesis by simp
    qed
  qed
qed

subsection \<open>The state after an attempt\<close>

lemma log_fields [simp]:
  "requested (log_verbose v ev s) = requested s" "slept (log_verbose v ev s) = slept s"
  "requests_of url (log_verbose v ev s) = requests_of url s"
  by (simp_all add: log_verbose_def requests_of_def)

lemma sleep_fields [simp]:
  "requested (sleep ms s) = requested s" "slept (sleep ms s) = slept s + ms"
  "requests_of url (sleep ms s) = requests_of url s"
  by (simp_all add: sleep_def requests_of_def)

lemma receive_result:
  "fst (receive env url options v res s) = outcome_result env url options (Resolves res)"
  by (cases "checksumSha256 options")
    (auto simp: receive_def Let_def split: sum.splits)

lemma receive_fields [simp]:
  "requested (snd (receive env url options v res s)) = requested s"
  "slept (snd (receive env url options v res s)) = slept s"
  by (simp_all add: receive_def Let_def split: sum.splits)

lemma attempt_result:
  "fst (attempt env url options v retries s)
    = outcome_result env url options (respond env url (requests_of url s))"
  by (cases "respond env url (requests_of url s)")
    (simp_all add: attempt_def request_def Let_def receive_result del: outcome_result.simps(2))

lemma attempt_requested [simp]:
  "requested (snd (attempt env url options v retries s))
    = requested s @ [(url, nodeFetchOptions options)]"
  by (simp add: attempt_def request_def Let_def split: fetch_outcome.splits)

lemma attempt_slept [simp]: "slept (snd (attempt env url options v retries s)) = slept s"
  by (simp add: attempt_def request_def Let_def split: fetch_outcome.splits)

lemma attempt_requests_of [simp]:
  "requests_of url (snd (attempt env url options v retries s)) = Suc (requests_of url s)"
  by (simp add: requests_of_def)

section \<open>fetchUrl against its specification\<close>

lemma fetchUrl_unfold:
  "fetchUrl env url options retries d s =
     (let v = (verbose_opt options = Some True);
          a = attempt env url options v retries s
      in case fst a of
           Inr file \<Rightarrow> (Inr file, snd a)
         | Inl e \<Rightarrow>
             if retries > 0
             then fetchUrl env url options (retries - 1) d
                    (sleep d (log_verbose v (FetchFailed url e) (snd a)))
             else (Inl e, log_verbose v (FetchFailed url e) (snd a)))"
  by (subst fetchUrl.simps) (simp add: Let_def split: prod.splits sum.splits)

text \<open>The index of the request that decides the call, and how many it makes.\<close>

definition deciding :: "fetch_env \<Rightarrow> string \<Rightarrow> IFetchOptions \<Rightarrow> int \<Rightarrow> net \<Rightarrow> nat" where
  "deciding env url options retries s =
     first_ok (accepts env url options) (requests_of url s) (nat retries)"

definition attempts :: "fetch_env \<Rightarrow> string \<Rightarrow> IFetchOptions \<Rightarrow> int \<Rightarrow> net \<Rightarrow> nat" where
  "attempts env url options retries s =
     Suc (deciding env url options retries s - requests_of url s)"

lemma deciding_last [simp]:
  "retries \<le> 0 \<Longrightarrow> deciding env url options retries s = requests_of url s"
  by (simp add: deciding_def)

lemma deciding_accepted:
  "accepts env url options (requests_of url s)
    \<Longrightarrow> deciding env url options retries s = requests_of url s"
  by (cases "nat retries") (simp_all add: deciding_def)

lemma deciding_rejected:
  assumes "\<not> accepts env url options (requests_of url s)" and "0 < retries"
    and "requests_of url s' = Suc (requests_of url s)"
  shows "deciding env url options retries s = deciding env url options (retries - 1) s'"
proof -
  from assms(2) have "nat retries = Suc (nat (retries - 1))" by simp
  with assms(1,3) show ?thesis by (simp add: deciding_def)
qed

lemma deciding_bounds:
  "requests_of url s \<le> deciding env url options retries s"
  "deciding env url options retries s \<le> requests_of url s + nat retries"
  using first_ok_bounds [of "requests_of url s" "accepts env url options" "nat retries"]
  by (simp_all add: deciding_def)

lemma fetchUrl_spec:
  "fst (fetchUrl env url options retries d s)
     = outcome_result env url options (respond env url (deciding env url options retries s)) \<and>
   requested (snd (fetchUrl env url options retries d s))
     = requested s @ replicate (attempts env url options retries s) (url, nodeFetchOptions options) \<and>
   slept (snd (fetchUrl env url options retries d s))
     = slept s + (int (attempts env url options retries s) - 1) * d"
proof (induction "nat retries" arbitrary: retries s)
  case 0
  then have "retries \<le> 0" by simp
  then show ?case
    by (subst (1 2 3) fetchUrl_unfold)
      (simp add: Let_def attempts_def attempt_result split: sum.splits)
next
  case (Suc n)
  let ?v = "verbose_opt options = Some True"
  let ?a = "attempt env url options ?v retries s"
  from Suc.hyps(2) have pos: "0 < retries" and n: "n = nat (retries - 1)" by simp_all
  show ?case
  proof (cases "fst ?a")
    case (Inr f)
    then have res: "outcome_result env url options (respond env url (requests_of url s)) = Inr f"
      by (simp add: attempt_result)
    then have "accepts env url options (requests_of url s)"
      by (simp add: accepts_def)
    with Inr res show ?thesis
      by (subst (1 2 3) fetchUrl_unfold)
        (simp add: Let_def attempts_def deciding_accepted)
  next
    case (Inl e)
    let ?s' = "sleep d (log_verbose ?v (FetchFailed url e) (snd ?a))"
    from Inl have rej: "\<not> accepts env url options (requests_of url s)"
      by (simp add: accepts_def attempt_result)
    have next_s: "requests_of url ?s' = Suc (requests_of url s)" by simp
    note dec = deciding_rejected [OF rej pos next_s]
    from deciding_bounds(1) [of url ?s' env options "retries - 1"]
    have "Suc (requests_of url s) \<le> deciding env url options (retries - 1) ?s'"
      by simp
    then have att: "attempts env url options retries s
        = Suc (attempts env url options (retries - 1) ?s')"
      by (simp add: attempts_def dec Suc_diff_le)
    from Inl pos have step: "fetchUrl env url options retries d s
        = fetchUrl env url options (retries - 1) d ?s'"
      by (subst fetchUrl_unfold) (simp add: Let_def)
    from Suc.hyps(1) [OF n, of ?s'] show ?thesis
      unfolding step att dec by (simp add: algebra_simps)
  qed
qed

lemmas fetchUrl_result = fetchUrl_spec [THEN conjunct1]
lemmas fetchUrl_requested = fetchUrl_spec [THEN conjunct2, THEN conjunct1]
lemmas fetchUrl_slept = fetchUrl_spec [THEN conjunct2, THEN conjunct2]

section \<open>fetchUrls\<close>

text \<open>
  Lines 16--24: the defaults. A base that is neither a string nor \<^verbatim>\<open>null\<close>
  becomes \<^verbatim>\<open>'/'\<close>; one URL is a list of one.
\<close>

definition noOptions :: IFetchOptions where
  "noOptions = \<lparr>verbose_opt = None, path_opt = None, checksumSha256 = None,
     base_opt = Absent, nodeFetchOptions = []\<rparr>"

definition withBase :: "IFetchOptions option \<Rightarrow> IFetchOptions" where
  "withBase options =
     (let options = (case options of None \<Rightarrow> noOptions | Some given \<Rightarrow> given)
      in if base_opt options = Absent then options\<lparr>base_opt := Present ''/''\<rparr> else options)"

text \<open>Line 26: \<^verbatim>\<open>[options.base, data].join('')\<close>, where \<^verbatim>\<open>null\<close> joins as \<^verbatim>\<open>''\<close>.\<close>

definition joinBase :: "IFetchOptions \<Rightarrow> string \<Rightarrow> string" where
  "joinBase options data = (case base_opt options of Present b \<Rightarrow> b @ data | _ \<Rightarrow> data)"

text \<open>
  Lines 25--32. The stream starts the downloads of all URLs and has a file
  or an error for each. \<open>fetchEach\<close> runs them one after the other, in the
  order of the list, and gives the outcomes by position; the downloads as
  they run at once are \<open>interleave\<close> below. The outcome of a request depends
  on its URL and on how many requests for that URL came before.
\<close>

fun fetchEach ::
    "fetch_env \<Rightarrow> IFetchOptions \<Rightarrow> string list \<Rightarrow> net \<Rightarrow> VinylFile fetch_result list \<times> net" where
  "fetchEach env options [] s = ([], s)"
| "fetchEach env options (data # rest) s =
     (let (r, s1) = fetchUrl env (joinBase options data) options 10 1000 s;
          (rs, s2) = fetchEach env options rest s1
      in (r # rs, s2))"

definition fetchUrls ::
    "fetch_env \<Rightarrow> string + string list \<Rightarrow> IFetchOptions option \<Rightarrow> net
      \<Rightarrow> VinylFile fetch_result list \<times> net" where
  "fetchUrls env urls options s =
     fetchEach env (withBase options) (case urls of Inl url \<Rightarrow> [url] | Inr list \<Rightarrow> list) s"

subsection \<open>The downloads at once\<close>

text \<open>
  The stream of lines 25--32 starts the download of every URL before the
  first of them has an answer, and the attempts of the downloads then come in
  an order the program does not choose. A download is a call of \<^verbatim>\<open>fetchUrl\<close>
  that runs, with the retries it has left, or has returned. \<open>advance\<close> is one
  attempt of it, lines 35--92 once through; \<open>interleave\<close> lets the downloads
  make their attempts in the order of the list \<open>turns\<close>, which names them by
  their position. An attempt is one step: what comes between the request and
  its answer changes neither of them.
\<close>

datatype download = Running string int | Finished "VinylFile fetch_result"

fun finished :: "download \<Rightarrow> bool" where
  "finished (Finished r) = True"
| "finished (Running url retries) = False"

fun advance :: "fetch_env \<Rightarrow> IFetchOptions \<Rightarrow> int \<Rightarrow> download \<Rightarrow> net \<Rightarrow> download \<times> net" where
  "advance env options retryDelay (Finished r) s = (Finished r, s)"
| "advance env options retryDelay (Running url retries) s =
     (let verbose = (verbose_opt options = Some True);
          (r, s1) = attempt env url options verbose retries s
      in case r of
           Inr file \<Rightarrow> (Finished (Inr file), s1)
         | Inl e \<Rightarrow>
             (let s2 = log_verbose verbose (FetchFailed url e) s1
              in if retries > 0
                 then (Running url (retries - 1), sleep retryDelay s2)
                 else (Finished (Inl e), s2)))"

fun interleave ::
    "fetch_env \<Rightarrow> IFetchOptions \<Rightarrow> nat list \<Rightarrow> download list \<Rightarrow> net \<Rightarrow> download list \<times> net" where
  "interleave env options [] ds s = (ds, s)"
| "interleave env options (i # turns) ds s =
     (if i < length ds
      then (let (d, s1) = advance env options 1000 (ds ! i) s
            in interleave env options turns (ds[i := d]) s1)
      else interleave env options turns ds s)"

definition fetchUrlsAtOnce ::
    "fetch_env \<Rightarrow> string + string list \<Rightarrow> IFetchOptions option \<Rightarrow> nat list \<Rightarrow> net
      \<Rightarrow> download list \<times> net" where
  "fetchUrlsAtOnce env urls options turns s =
     interleave env (withBase options) turns
       (map (\<lambda>data. Running (joinBase (withBase options) data) 10)
          (case urls of Inl url \<Rightarrow> [url] | Inr list \<Rightarrow> list)) s"

section \<open>fetchGithub\<close>

text \<open>Lines 95--105: the headers, with the token of the environment when it has one.\<close>

definition ghApiHeaders :: "fetch_env \<Rightarrow> headers" where
  "ghApiHeaders env =
     [(''Accept'', ''application/vnd.github.v3+json''), (''User-Agent'', ''VSCode Build'')]
     @ (if truthy (github_token env)
        then [(''Authorization'', ''Basic '' @ base64 env (the (github_token env)))]
        else [])"

definition ghDownloadHeaders :: "fetch_env \<Rightarrow> headers" where
  "ghDownloadHeaders env =
     map_upsert ''Accept'' (\<lambda>_. ''application/octet-stream'') [] (ghApiHeaders env)"

text \<open>\<^verbatim>\<open>repo.replace(/^\/|\/$/g, '')\<close>: one slash less at either end.\<close>

definition stripSlashes :: "string \<Rightarrow> string" where
  "stripSlashes repo =
     (let r = (if repo \<noteq> [] \<and> hd repo = CHR ''/'' then tl repo else repo)
      in if r \<noteq> [] \<and> last r = CHR ''/'' then butlast r else r)"

definition releaseUrl :: "string \<Rightarrow> IGitHubAssetOptions \<Rightarrow> string" where
  "releaseUrl repo options =
     ''/repos/'' @ stripSlashes repo @ ''/releases/tags/v'' @ version options"

fun assetFilter :: "asset_filter \<Rightarrow> string \<Rightarrow> bool" where
  "assetFilter (NameIs n) x = (x = n)"
| "assetFilter (NameFilter f) x = f x"

text \<open>Lines 114--117 and 126--129: the options of the two requests.\<close>

definition apiOptions :: "fetch_env \<Rightarrow> IGitHubAssetOptions \<Rightarrow> IFetchOptions" where
  "apiOptions env options =
     \<lparr>verbose_opt = verbose_opt options, path_opt = path_opt options,
      checksumSha256 = None, base_opt = Present ''https://api.github.com'',
      nodeFetchOptions = ghApiHeaders env\<rparr>"

definition downloadOptions :: "fetch_env \<Rightarrow> IGitHubAssetOptions \<Rightarrow> IFetchOptions" where
  "downloadOptions env options =
     \<lparr>verbose_opt = verbose_opt options, path_opt = path_opt options,
      checksumSha256 = checksumSha256 options, base_opt = Absent,
      nodeFetchOptions = ghDownloadHeaders env\<rparr>"

text \<open>
  Lines 118--135: what the second stage does with the file of the release.
  \<open>parse_assets\<close> is \<^verbatim>\<open>JSON.parse(file.contents.toString()).assets\<close>: the assets,
  or what is thrown when the body is not JSON or has no array of assets.
  That is thrown before the \<^verbatim>\<open>try\<close> of line 124, as is nothing else of the
  stage.
\<close>

definition findAsset ::
    "fetch_env \<Rightarrow> IGitHubAssetOptions \<Rightarrow> VinylFile \<Rightarrow> string + asset option" where
  "findAsset env options file =
     (case parse_assets env (contents file) of
        Inl msg \<Rightarrow> Inl msg
      | Inr assets \<Rightarrow> Inr (find (\<lambda>a. assetFilter (name_opt options) (asset_name a)) assets))"

definition downloadAsset ::
    "fetch_env \<Rightarrow> string \<Rightarrow> IGitHubAssetOptions \<Rightarrow> VinylFile \<Rightarrow> net
      \<Rightarrow> VinylFile fetch_result \<times> net" where
  "downloadAsset env repo options file s =
     (case findAsset env options file of
        Inl msg \<Rightarrow> (Inl (Unhandled msg), s)
      | Inr None \<Rightarrow> (Inl (AssetNotFound repo (version options)), s)
      | Inr (Some a) \<Rightarrow> fetchUrl env (asset_url a) (downloadOptions env options) 10 1000 s)"

text \<open>
  The second stage runs on every file the first emits. An error of the first
  stream is an event of that stream: it is passed on marked \<open>Upstream\<close>.
\<close>

fun throughEach ::
    "(VinylFile \<Rightarrow> net \<Rightarrow> VinylFile fetch_result \<times> net) \<Rightarrow> VinylFile fetch_result list \<Rightarrow> net
      \<Rightarrow> VinylFile fetch_result list \<times> net" where
  "throughEach stage [] s = ([], s)"
| "throughEach stage (Inl e # rest) s =
     (let (rs, s1) = throughEach stage rest s in (Inl (Upstream e) # rs, s1))"
| "throughEach stage (Inr file # rest) s =
     (let (r, s1) = stage file s; (rs, s2) = throughEach stage rest s1 in (r # rs, s2))"

definition fetchGithub ::
    "fetch_env \<Rightarrow> string \<Rightarrow> IGitHubAssetOptions \<Rightarrow> net \<Rightarrow> VinylFile fetch_result list \<times> net" where
  "fetchGithub env repo options s =
     (let (files, s1) =
            fetchUrls env (Inl (releaseUrl repo options)) (Some (apiOptions env options)) s
      in throughEach (downloadAsset env repo options) files s1)"

section \<open>Lemmas on the downloads\<close>

lemma deciding_at:
  assumes "k \<le> nat retries" and "accepts env url options (requests_of url s + k)"
    and "\<And>j. j < k \<Longrightarrow> \<not> accepts env url options (requests_of url s + j)"
  shows "deciding env url options retries s = requests_of url s + k"
  unfolding deciding_def
proof (rule first_okI)
  fix j
  assume "requests_of url s \<le> j" and "j < requests_of url s + k"
  then have "j - requests_of url s < k" and "j = requests_of url s + (j - requests_of url s)"
    by simp_all
  with assms(3) [of "j - requests_of url s"] show "\<not> accepts env url options j" by simp
qed (use assms in simp_all)

lemma deciding_none:
  assumes "\<And>j. j \<le> nat retries \<Longrightarrow> \<not> accepts env url options (requests_of url s + j)"
  shows "deciding env url options retries s = requests_of url s + nat retries"
proof (rule ccontr)
  let ?k = "deciding env url options retries s"
  assume "?k \<noteq> requests_of url s + nat retries"
  with deciding_bounds [where url = url and s = s and env = env and options = options
      and retries = retries]
  have lt: "?k < requests_of url s + nat retries" and ge: "requests_of url s \<le> ?k"
    by simp_all
  from lt have "accepts env url options ?k"
    unfolding deciding_def by (rule first_ok_holds)
  moreover from lt ge have "?k - requests_of url s \<le> nat retries"
    and "?k = requests_of url s + (?k - requests_of url s)" by simp_all
  ultimately show False using assms [of "?k - requests_of url s"] by simp
qed

lemma outcome_result_checksum:
  assumes "outcome_result env url options out = Inr file"
    and "checksumSha256 options = Some c" and "c \<noteq> []"
  shows "sha256 env (contents file) = c"
  using assms
  by (cases out) (auto simp: newVinylFile_def split: if_splits sum.splits)

lemma fetchUrl_checksum_ok:
  "fst (fetchUrl env url options retries d s) = Inr file \<Longrightarrow>
     checksumSha256 options = Some c \<Longrightarrow> c \<noteq> [] \<Longrightarrow> sha256 env (contents file) = c"
  by (simp add: fetchUrl_result outcome_result_checksum del: outcome_result.simps)

lemma count_list_replicate: "count_list (replicate n x) y = (if x = y then n else 0)"
  by (induction n) auto

lemma requests_of_append:
  "requested s' = requested s @ replicate n (url, hs) \<Longrightarrow>
     requests_of u s' = requests_of u s + (if u = url then n else 0)"
  by (simp add: requests_of_def count_list_append count_list_replicate)

lemma fetchUrl_requests_of_other:
  "u \<noteq> url \<Longrightarrow> requests_of u (snd (fetchUrl env url options retries d s)) = requests_of u s"
  using requests_of_append [OF fetchUrl_requested, of u] by simp

lemma fetchUrl_result_cong:
  "requests_of url s = requests_of url s' \<Longrightarrow>
     fst (fetchUrl env url options retries d s) = fst (fetchUrl env url options retries d s')"
  by (simp add: fetchUrl_result deciding_def del: outcome_result.simps)

lemma fetchEach_Cons:
  "fst (fetchEach env options (u # urls) s)
    = fst (fetchUrl env (joinBase options u) options 10 1000 s)
      # fst (fetchEach env options urls (snd (fetchUrl env (joinBase options u) options 10 1000 s)))"
  by (simp add: Let_def case_prod_beta)

lemma fetchEach_independent:
  "distinct (map (joinBase options) urls) \<Longrightarrow>
     (\<And>u. u \<in> set urls \<Longrightarrow> requests_of (joinBase options u) s = requests_of (joinBase options u) s0)
     \<Longrightarrow> fst (fetchEach env options urls s)
       = map (\<lambda>u. fst (fetchUrl env (joinBase options u) options 10 1000 s0)) urls"
proof (induction urls arbitrary: s)
  case Nil
  show ?case by simp
next
  case (Cons u urls)
  let ?s1 = "snd (fetchUrl env (joinBase options u) options 10 1000 s)"
  have "requests_of (joinBase options v) ?s1 = requests_of (joinBase options v) s0"
    if "v \<in> set urls" for v
  proof -
    from Cons.prems(1) have "joinBase options u \<notin> joinBase options ` set urls" by simp
    with that have "joinBase options v \<noteq> joinBase options u" by (metis imageI)
    with that Cons.prems(2) [of v] show ?thesis by (simp add: fetchUrl_requests_of_other)
  qed
  with Cons.prems(1) have "fst (fetchEach env options urls ?s1)
      = map (\<lambda>u. fst (fetchUrl env (joinBase options u) options 10 1000 s0)) urls"
    by (intro Cons.IH) simp_all
  moreover have "fst (fetchUrl env (joinBase options u) options 10 1000 s)
      = fst (fetchUrl env (joinBase options u) options 10 1000 s0)"
    by (rule fetchUrl_result_cong) (simp add: Cons.prems(2))
  ultimately show ?case by (simp add: fetchEach_Cons del: fetchEach.simps)
qed

lemma length_fetchEach [simp]: "length (fst (fetchEach env options urls s)) = length urls"
  by (induction urls arbitrary: s) (simp_all add: fetchEach_Cons del: fetchEach.simps(2))

subsection \<open>The downloads in any order\<close>

text \<open>What a download will return, whatever the others do.\<close>

fun promised :: "fetch_env \<Rightarrow> IFetchOptions \<Rightarrow> net \<Rightarrow> download \<Rightarrow> VinylFile fetch_result" where
  "promised env options s (Finished r) = r"
| "promised env options s (Running url retries) = fst (fetchUrl env url options retries 1000 s)"

fun url_of :: "download \<Rightarrow> string option" where
  "url_of (Finished r) = None"
| "url_of (Running url retries) = Some url"

lemma advance_promised:
  "promised env options (snd (advance env options 1000 d s)) (fst (advance env options 1000 d s))
     = promised env options s d"
proof (cases d)
  case (Running url retries)
  have "promised env options s (Running url retries)
      = fst (fetchUrl env url options retries 1000 s)" by simp
  also have "\<dots> = promised env options
      (snd (advance env options 1000 (Running url retries) s))
      (fst (advance env options 1000 (Running url retries) s))"
    by (subst fetchUrl_unfold) (simp add: Let_def case_prod_beta split: sum.splits)
  finally show ?thesis unfolding Running by simp
qed simp

lemma advance_requests_of:
  "url_of d \<noteq> Some u \<Longrightarrow> requests_of u (snd (advance env options 1000 d s)) = requests_of u s"
  by (cases d)
    (auto simp: Let_def case_prod_beta requests_of_def attempt_requested split: sum.splits)

lemma promised_cong:
  "(\<And>u. url_of d = Some u \<Longrightarrow> requests_of u s = requests_of u s')
    \<Longrightarrow> promised env options s d = promised env options s' d"
  by (cases d) (auto intro: fetchUrl_result_cong)

lemma url_of_advance:
  "url_of (fst (advance env options 1000 d s)) = Some u \<Longrightarrow> url_of d = Some u"
  by (cases d) (auto simp: Let_def case_prod_beta split: sum.splits if_splits)


text \<open>The downloads of distinct URLs: each is finished or asks for its own.\<close>

definition own_urls :: "download list \<Rightarrow> string list \<Rightarrow> bool" where
  "own_urls ds us \<longleftrightarrow>
     distinct us \<and> list_all2 (\<lambda>d u. url_of d = None \<or> url_of d = Some u) ds us"

lemma advance_keeps:
  assumes "own_urls ds us" and "i < length ds"
  shows "own_urls (ds[i := fst (advance env options 1000 (ds ! i) s)]) us"
    and "map (promised env options (snd (advance env options 1000 (ds ! i) s)))
           (ds[i := fst (advance env options 1000 (ds ! i) s)])
         = map (promised env options s) ds"
proof -
  let ?d = "fst (advance env options 1000 (ds ! i) s)"
  let ?s = "snd (advance env options 1000 (ds ! i) s)"
  from assms(1) have len: "length ds = length us" and d: "distinct us"
    by (auto simp: own_urls_def dest: list_all2_lengthD)
  from assms(1) have own: "url_of (ds ! j) = None \<or> url_of (ds ! j) = Some (us ! j)"
    if "j < length ds" for j
    using that by (auto simp: own_urls_def list_all2_conv_all_nth)
  from own [OF assms(2)] url_of_advance [of env options "ds ! i" s]
  have "url_of ?d = None \<or> url_of ?d = Some (us ! i)"
    by (cases "url_of ?d") auto
  then have "url_of (ds[i := ?d] ! j) = None \<or> url_of (ds[i := ?d] ! j) = Some (us ! j)"
    if "j < length ds" for j
    using that own [OF that] by (cases "j = i") simp_all
  with len d show "own_urls (ds[i := ?d]) us"
    by (simp add: own_urls_def list_all2_conv_all_nth)
  show "map (promised env options ?s) (ds[i := ?d]) = map (promised env options s) ds"
  proof (rule nth_equalityI)
    fix j assume "j < length (map (promised env options ?s) (ds[i := ?d]))"
    then have j: "j < length ds" by simp
    show "map (promised env options ?s) (ds[i := ?d]) ! j = map (promised env options s) ds ! j"
    proof (cases "j = i")
      case True
      with j show ?thesis by (simp add: advance_promised)
    next
      case False
      have "requests_of u ?s = requests_of u s" if "url_of (ds ! j) = Some u" for u
      proof (rule advance_requests_of)
        from that own [OF j] have "u = us ! j" by simp
        with False j assms(2) len d have "u \<noteq> us ! i" by (simp add: nth_eq_iff_index_eq)
        with own [OF assms(2)] show "url_of (ds ! i) \<noteq> Some u" by auto
      qed
      then have "promised env options ?s (ds ! j) = promised env options s (ds ! j)"
        by (rule promised_cong)
      with False j show ?thesis by simp
    qed
  qed simp
qed

lemma interleave_promised:
  "own_urls ds us \<Longrightarrow>
     map (promised env options (snd (interleave env options turns ds s)))
       (fst (interleave env options turns ds s)) = map (promised env options s) ds"
proof (induction turns arbitrary: ds s)
  case Nil
  show ?case by simp
next
  case (Cons i turns)
  show ?case
  proof (cases "i < length ds")
    case True
    from advance_keeps [OF Cons.prems True, of env options s] Cons.IH show ?thesis
      using True by (simp add: case_prod_beta)
  next
    case False
    with Cons show ?thesis by simp
  qed
qed

lemma finished_promised:
  "list_all finished ds \<Longrightarrow> ds = map Finished (map (promised env options s) ds)"
proof (induction ds)
  case (Cons d ds)
  then show ?case by (cases d) simp_all
qed simp

lemma own_urls_start: "distinct us \<Longrightarrow> own_urls (map (\<lambda>u. Running u 10) us) us"
  by (simp add: own_urls_def list_all2_conv_all_nth)

text \<open>Every order of the attempts that finishes the downloads gives each its own result.\<close>

lemma interleave_results:
  assumes "distinct us"
    and "list_all finished (fst (interleave env options turns (map (\<lambda>u. Running u 10) us) s))"
  shows "fst (interleave env options turns (map (\<lambda>u. Running u 10) us) s)
    = map (\<lambda>u. Finished (fst (fetchUrl env u options 10 1000 s))) us"
  using finished_promised [OF assms(2), of env options
      "snd (interleave env options turns (map (\<lambda>u. Running u 10) us) s)"]
    interleave_promised [OF own_urls_start [OF assms(1)], of env options turns s]
  by (simp add: comp_def)


text \<open>The attempts a download may still make.\<close>

fun attempts_left :: "download \<Rightarrow> nat" where
  "attempts_left (Finished r) = 0"
| "attempts_left (Running url retries) = Suc (nat retries)"

lemma attempts_left_advance:
  "attempts_left (fst (advance env options retryDelay d s)) \<le> attempts_left d - 1"
  by (cases d) (auto simp: Let_def case_prod_beta split: sum.splits)

lemma finished_iff: "finished d \<longleftrightarrow> attempts_left d = 0"
  by (cases d) simp_all

lemma length_interleave [simp]: "length (fst (interleave env options turns ds s)) = length ds"
  by (induction turns arbitrary: ds s) (simp_all add: case_prod_beta)

lemma interleave_attempts_left:
  "j < length ds \<Longrightarrow>
     attempts_left (fst (interleave env options turns ds s) ! j)
       \<le> attempts_left (ds ! j) - count_list turns j"
proof (induction turns arbitrary: ds s)
  case Nil
  show ?case by simp
next
  case (Cons i turns)
  show ?case
  proof (cases "i < length ds")
    case True
    let ?d = "fst (advance env options 1000 (ds ! i) s)"
    let ?s = "snd (advance env options 1000 (ds ! i) s)"
    from Cons.prems have "attempts_left (fst (interleave env options turns (ds[i := ?d]) ?s) ! j)
        \<le> attempts_left (ds[i := ?d] ! j) - count_list turns j"
      by (intro Cons.IH) simp
    also have "\<dots> \<le> attempts_left (ds ! j) - count_list (i # turns) j"
      using attempts_left_advance [of env options 1000 "ds ! i" s] Cons.prems True
      by (cases "j = i") simp_all
    finally show ?thesis using True by (simp add: case_prod_beta)
  next
    case False
    with Cons.prems have "i \<noteq> j" by auto
    with Cons.IH [OF Cons.prems] False show ?thesis by simp
  qed
qed

lemma interleave_finished:
  assumes "\<forall>j < length ds. attempts_left (ds ! j) \<le> count_list turns j"
  shows "list_all finished (fst (interleave env options turns ds s))"
  unfolding list_all_length finished_iff
proof (intro allI impI)
  fix j assume "j < length (fst (interleave env options turns ds s))"
  then have j: "j < length ds" by simp
  with assms interleave_attempts_left [OF j, of env options turns s]
  show "attempts_left (fst (interleave env options turns ds s) ! j) = 0" by auto
qed

subsection \<open>fetchGithub as two downloads\<close>

definition releaseRequest :: "string \<Rightarrow> IGitHubAssetOptions \<Rightarrow> string" where
  "releaseRequest repo options = ''https://api.github.com'' @ releaseUrl repo options"

lemma withBase_apiOptions [simp]: "withBase (Some (apiOptions env options)) = apiOptions env options"
  by (simp add: withBase_def apiOptions_def)

lemma joinBase_apiOptions [simp]:
  "joinBase (apiOptions env options) u = ''https://api.github.com'' @ u"
  by (simp add: joinBase_def apiOptions_def)

lemma fetchGithub_unfold:
  "fetchGithub env repo options s =
     (let first = fetchUrl env (releaseRequest repo options) (apiOptions env options) 10 1000 s
      in case fst first of
           Inl e \<Rightarrow> ([Inl (Upstream e)], snd first)
         | Inr file \<Rightarrow>
             (let second = downloadAsset env repo options file (snd first)
              in ([fst second], snd second)))"
  by (simp add: fetchGithub_def fetchUrls_def releaseRequest_def Let_def case_prod_beta
      split: sum.splits)

lemma downloadAsset_checksum_ok:
  assumes "fst (downloadAsset env repo options file s) = Inr got"
    and "checksumSha256 options = Some c" and "c \<noteq> []"
  shows "sha256 env (contents got) = c"
proof -
  from assms(1) obtain a where "findAsset env options file = Inr (Some a)"
    by (auto simp: downloadAsset_def split: sum.splits option.splits)
  with assms(1) have "fst (fetchUrl env (asset_url a) (downloadOptions env options) 10 1000 s)
      = Inr got"
    by (simp add: downloadAsset_def)
  then show ?thesis
    by (rule fetchUrl_checksum_ok) (simp_all add: downloadOptions_def assms)
qed

lemma headers_Accept:
  "map_of (ghDownloadHeaders env) ''Accept'' = Some ''application/octet-stream''"
  "k \<noteq> ''Accept'' \<Longrightarrow> map_of (ghDownloadHeaders env) k = map_of (ghApiHeaders env) k"
  "map fst (ghDownloadHeaders env) = map fst (ghApiHeaders env)"
  by (simp_all add: ghDownloadHeaders_def keys_map_upsert) (simp add: ghApiHeaders_def)

section \<open>A network to run the definitions on\<close>

text \<open>
  A server that drops the first two requests for \<^verbatim>\<open>/a\<close> and answers the third,
  a release with one asset, and 404 for everything else; a stand-in for the
  hash.
\<close>

definition example_file :: string where
  "example_file = ''https://example.test/a''"

definition example_missing :: string where
  "example_missing = ''https://example.test/none''"

definition example_release :: string where
  "example_release = ''https://api.github.com/repos/owner/repo/releases/tags/v1.0''"

definition example_asset :: asset where
  "example_asset = \<lparr>asset_name = ''sysroot.tar.gz'', asset_url = ''https://example.test/asset''\<rparr>"

definition answer :: "buffer \<Rightarrow> fetch_outcome" where
  "answer body = Resolves \<lparr>ok = True, status = 200, arrayBuffer = Inr body\<rparr>"

definition example_env :: fetch_env where
  "example_env =
     \<lparr>respond = (\<lambda>url k.
          if url = example_file then (if k < 2 then Rejects ''ECONNRESET'' else answer ''payload'')
          else if url = example_release then answer ''release''
          else if url = asset_url example_asset then answer ''tarball''
          else Resolves \<lparr>ok = False, status = 404, arrayBuffer = Inr []\<rparr>),
      sha256 = (\<lambda>body. ''sha:'' @ body),
      dirname = (\<lambda>p. p),
      parse_assets = (\<lambda>body. if body = ''release'' then Inr [example_asset]
                               else Inl ''SyntaxError''),
      github_token = Some ''token'',
      base64 = (\<lambda>t. t)\<rparr>"

definition offline :: net where
  "offline = \<lparr>requested = [], logged = [], slept = 0\<rparr>"

definition example_options :: IGitHubAssetOptions where
  "example_options =
     \<lparr>verbose_opt = None, path_opt = None, checksumSha256 = Some ''sha:tarball'',
      version = ''1.0'', name_opt = NameIs ''sysroot.tar.gz''\<rparr>"

lemmas fetch_example_defs = example_file_def example_missing_def example_release_def example_asset_def answer_def
  example_env_def offline_def example_options_def noOptions_def

section \<open>Properties\<close>

text \<open>
  Property C6 (refinement). \<^verbatim>\<open>fetchUrl\<close> returns what the first accepted
  request gives: when the \<open>k\<close>-th request from now is accepted, \<open>k\<close> is within
  the retries and no request before it is accepted, the call returns the
  file of that request, has made \<open>k + 1\<close> requests with the headers of the
  options and has slept \<open>k\<close> delays.
\<close>

theorem fetchUrl_returns_first_accepted:
  assumes "k \<le> nat retries"
    and "accepts env url options (requests_of url s + k)"
    and "\<And>j. j < k \<Longrightarrow> \<not> accepts env url options (requests_of url s + j)"
  shows "fst (fetchUrl env url options retries d s)
      = outcome_result env url options (respond env url (requests_of url s + k)) \<and>
    requested (snd (fetchUrl env url options retries d s))
      = requested s @ replicate (Suc k) (url, nodeFetchOptions options) \<and>
    slept (snd (fetchUrl env url options retries d s)) = slept s + int k * d"
  using fetchUrl_spec [of env url options retries d s] deciding_at [OF assms]
  by (simp add: attempts_def del: outcome_result.simps)

theorem fetchUrl_returns_first_accepted_witness:
  "\<not> accepts example_env example_file noOptions 0 \<and>
   \<not> accepts example_env example_file noOptions 1 \<and>
   accepts example_env example_file noOptions 2 \<and>
   fst (fetchUrl example_env example_file noOptions 10 1000 offline)
     = Inr \<lparr>cwd = ''/'', base_dir = Absent, file_path = example_file, contents = ''payload''\<rparr> \<and>
   length (requested (snd (fetchUrl example_env example_file noOptions 10 1000 offline))) = 3 \<and>
   slept (snd (fetchUrl example_env example_file noOptions 10 1000 offline)) = 2000"
proof -
  let ?run = "fetchUrl example_env example_file noOptions 10 1000 offline"
  have ro: "requests_of example_file offline = 0" by (simp add: requests_of_def offline_def)
  have h0: "\<not> accepts example_env example_file noOptions 0" by code_simp
  have h1: "\<not> accepts example_env example_file noOptions 1" by code_simp
  have h2: "accepts example_env example_file noOptions 2" by code_simp
  have h3: "\<not> accepts example_env example_file noOptions (requests_of example_file offline + j)"
    if "j < 2" for j
  proof -
    from that have "j = 0 \<or> j = 1" by auto
    with h0 h1 show ?thesis by (auto simp: ro)
  qed
  have v: "outcome_result example_env example_file noOptions (respond example_env example_file 2)
    = Inr \<lparr>cwd = ''/'', base_dir = Absent, file_path = example_file, contents = ''payload''\<rparr>"
    by code_simp
  have "2 \<le> nat 10" by simp
  moreover from h2 have "accepts example_env example_file noOptions
      (requests_of example_file offline + 2)" by (simp only: ro add_0_left)
  ultimately have r: "fst ?run
      = outcome_result example_env example_file noOptions
          (respond example_env example_file (requests_of example_file offline + 2)) \<and>
    requested (snd ?run)
      = requested offline @ replicate (Suc 2) (example_file, nodeFetchOptions noOptions) \<and>
    slept (snd ?run) = slept offline + int 2 * 1000"
    using h3 by (rule fetchUrl_returns_first_accepted)
  from r v have f: "fst ?run
    = Inr \<lparr>cwd = ''/'', base_dir = Absent, file_path = example_file, contents = ''payload''\<rparr>"
    by (simp only: ro add_0_left)
  from r have l: "length (requested (snd ?run)) = 3" by (simp add: offline_def)
  from r have sl: "slept (snd ?run) = 2000" by (simp add: offline_def)
  from h0 h1 h2 f l sl show ?thesis by blast
qed

text \<open>
  Property C8 (error). \<^verbatim>\<open>fetchUrl\<close> gives up only after the last retry: when
  none of the next \<open>retries + 1\<close> requests is accepted, the call fails with the
  error of the last of them, having made them all and slept between them.
\<close>

theorem fetchUrl_gives_up:
  assumes "\<And>j. j \<le> nat retries \<Longrightarrow> \<not> accepts env url options (requests_of url s + j)"
  shows "fst (fetchUrl env url options retries d s)
      = outcome_result env url options (respond env url (requests_of url s + nat retries)) \<and>
    isl (fst (fetchUrl env url options retries d s)) \<and>
    requested (snd (fetchUrl env url options retries d s))
      = requested s @ replicate (Suc (nat retries)) (url, nodeFetchOptions options) \<and>
    slept (snd (fetchUrl env url options retries d s)) = slept s + int (nat retries) * d"
proof -
  note dec = deciding_none [of retries env url options s, OF assms]
  from assms [of "nat retries"] have "isl (outcome_result env url options
      (respond env url (requests_of url s + nat retries)))"
    by (simp add: accepts_def)
  with fetchUrl_spec [of env url options retries d s] show ?thesis
    by (simp add: attempts_def dec del: outcome_result.simps)
qed

theorem fetchUrl_gives_up_witness:
  "\<not> accepts example_env example_missing noOptions 0 \<and>
   \<not> accepts example_env example_missing noOptions 1 \<and>
   fst (fetchUrl example_env example_missing noOptions 1 1000 offline)
     = Inl (RequestFailed example_missing 404) \<and>
   length (requested (snd (fetchUrl example_env example_missing noOptions 1 1000 offline))) = 2"
proof -
  let ?run = "fetchUrl example_env example_missing noOptions 1 1000 offline"
  have no: "\<not> accepts example_env example_missing noOptions k" for k
    by (simp add: accepts_def fetch_example_defs)
  have v: "outcome_result example_env example_missing noOptions
      (respond example_env example_missing k) = Inl (RequestFailed example_missing 404)" for k
    by (simp add: fetch_example_defs)
  have "fst ?run = outcome_result example_env example_missing noOptions
        (respond example_env example_missing (requests_of example_missing offline + nat 1)) \<and>
    isl (fst ?run) \<and>
    requested (snd ?run)
      = requested offline @ replicate (Suc (nat 1)) (example_missing, nodeFetchOptions noOptions) \<and>
    slept (snd ?run) = slept offline + int (nat 1) * 1000"
    by (rule fetchUrl_gives_up) (rule no)
  with v no [of 0] no [of 1] show ?thesis by (simp add: offline_def)
qed

text \<open>
  Property C10 (safety). A file that \<^verbatim>\<open>fetchUrl\<close> returns under an expected
  checksum has that checksum: a body with another one is never returned,
  whatever the retries.
\<close>

theorem fetchUrl_checksum:
  assumes "fst (fetchUrl env url options retries d s) = Inr file"
    and "checksumSha256 options = Some c" and "c \<noteq> []"
  shows "sha256 env (contents file) = c"
  using assms by (rule fetchUrl_checksum_ok)

theorem fetchUrl_checksum_witness:
  "fst (fetchUrl example_env example_file (noOptions\<lparr>checksumSha256 := Some ''sha:payload''\<rparr>)
         10 1000 offline)
     = Inr \<lparr>cwd = ''/'', base_dir = Absent, file_path = example_file, contents = ''payload''\<rparr> \<and>
   sha256 example_env ''payload'' = ''sha:payload'' \<and>
   fst (fetchUrl example_env example_file (noOptions\<lparr>checksumSha256 := Some ''sha:other''\<rparr>)
         2 1000 offline)
     = Inl (ChecksumMismatch example_file ''sha:other'' ''sha:payload'')"
proof -
  let ?options = "noOptions\<lparr>checksumSha256 := Some ''sha:payload''\<rparr>"
  have run: "fst (fetchUrl example_env example_file ?options 10 1000 offline)
     = Inr \<lparr>cwd = ''/'', base_dir = Absent, file_path = example_file, contents = ''payload''\<rparr>"
    by code_simp
  have bad: "fst (fetchUrl example_env example_file
      (noOptions\<lparr>checksumSha256 := Some ''sha:other''\<rparr>) 2 1000 offline)
     = Inl (ChecksumMismatch example_file ''sha:other'' ''sha:payload'')"
    by code_simp
  have "checksumSha256 ?options = Some ''sha:payload''" and "''sha:payload'' \<noteq> []"
    by (simp_all add: noOptions_def)
  with run have "sha256 example_env
      (contents \<lparr>cwd = ''/'', base_dir = Absent, file_path = example_file,
         contents = ''payload''\<rparr>) = ''sha:payload''"
    by (rule fetchUrl_checksum)
  with run bad show ?thesis by simp
qed

text \<open>
  Property C26 (termination). \<^verbatim>\<open>fetchUrl\<close> returns after at least one and at
  most \<open>retries + 1\<close> requests, all for its URL with the headers of the
  options, and sleeps one delay between two of them.
\<close>

theorem fetchUrl_attempts_bounded:
  "\<exists>n. 1 \<le> n \<and> n \<le> Suc (nat retries) \<and>
     requested (snd (fetchUrl env url options retries d s))
       = requested s @ replicate n (url, nodeFetchOptions options) \<and>
     slept (snd (fetchUrl env url options retries d s)) = slept s + (int n - 1) * d"
proof -
  from deciding_bounds [where url = url and s = s and env = env and options = options
      and retries = retries]
  have "attempts env url options retries s \<le> Suc (nat retries)"
    by (simp add: attempts_def)
  moreover have "1 \<le> attempts env url options retries s" by (simp add: attempts_def)
  ultimately show ?thesis
    using fetchUrl_requested [of env url options retries d s]
      fetchUrl_slept [of env url options retries d s] by blast
qed

text \<open>
  Property C30 (equivalence). The downloads of \<^verbatim>\<open>fetchUrls\<close> do not disturb each
  other. For distinct URLs, in whatever order the attempts of the downloads
  come, once every download has had its eleven turns each has returned what
  \<^verbatim>\<open>fetchUrl\<close> returns for its URL alone, which is what the sequential
  \<open>fetchUrls\<close> emits at its position; the URL is the one under the base, where
  an absent base is \<^verbatim>\<open>/\<close> and the base \<^verbatim>\<open>null\<close> is empty.
\<close>

theorem fetchUrls_independent:
  assumes "distinct urls" and "\<forall>j < length urls. 11 \<le> count_list turns j"
  shows "fst (fetchUrlsAtOnce env (Inr urls) options turns s)
      = map Finished (fst (fetchUrls env (Inr urls) options s)) \<and>
    fst (fetchUrls env (Inr urls) options s)
      = map (\<lambda>data. fst (fetchUrl env
          ((case options of
              None \<Rightarrow> ''/''
            | Some given \<Rightarrow> (case base_opt given of Absent \<Rightarrow> ''/'' | Null \<Rightarrow> [] | Present b \<Rightarrow> b))
           @ data)
          (withBase options) 10 1000 s)) urls"
proof -
  let ?base = "case options of
      None \<Rightarrow> ''/''
    | Some given \<Rightarrow> (case base_opt given of Absent \<Rightarrow> ''/'' | Null \<Rightarrow> [] | Present b \<Rightarrow> b)"
  let ?us = "map (joinBase (withBase options)) urls"
  have join: "joinBase (withBase options) data = ?base @ data" for data
    by (simp add: joinBase_def withBase_def noOptions_def Let_def
        split: option.splits nullable.splits)
  with assms(1) have d: "distinct ?us" by (simp add: distinct_map inj_on_def)
  have seq: "fst (fetchUrls env (Inr urls) options s)
      = map (\<lambda>data. fst (fetchUrl env (?base @ data) (withBase options) 10 1000 s)) urls"
    unfolding fetchUrls_def sum.case join [symmetric]
    by (rule fetchEach_independent [OF d]) simp
  have start: "map (\<lambda>data. Running (joinBase (withBase options) data) 10) urls
      = map (\<lambda>u. Running u 10) ?us"
    by (simp add: comp_def)
  from assms(2) have "list_all finished (fst (interleave env (withBase options) turns
      (map (\<lambda>u. Running u 10) ?us) s))"
    by (intro interleave_finished) simp
  from interleave_results [OF d this] seq show ?thesis
    by (simp add: fetchUrlsAtOnce_def start comp_def join)
qed

theorem fetchUrls_independent_witness:
  "distinct [''asset'', ''a''] \<and>
   fst (fetchUrlsAtOnce example_env (Inr [''asset'', ''a''])
          (Some (noOptions\<lparr>base_opt := Present ''https://example.test/''\<rparr>))
          (concat (replicate 11 [1, 0])) offline)
     = [Finished (Inr \<lparr>cwd = ''/'', base_dir = Present ''https://example.test/'',
             file_path = asset_url example_asset, contents = ''tarball''\<rparr>),
        Finished (Inr \<lparr>cwd = ''/'', base_dir = Present ''https://example.test/'',
             file_path = example_file, contents = ''payload''\<rparr>)]"
proof -
  let ?options = "Some (noOptions\<lparr>base_opt := Present ''https://example.test/''\<rparr>)"
  have h: "distinct [''asset'', ''a'']" by simp
  have t: "\<forall>j < length [''asset'', ''a'']. 11 \<le> count_list (concat (replicate 11 [1, 0])) j"
    by (simp add: less_Suc_eq numeral_eq_Suc)
  have "fst (fetchUrls example_env (Inr [''asset'', ''a'']) ?options offline)
     = [Inr \<lparr>cwd = ''/'', base_dir = Present ''https://example.test/'',
             file_path = asset_url example_asset, contents = ''tarball''\<rparr>,
        Inr \<lparr>cwd = ''/'', base_dir = Present ''https://example.test/'',
             file_path = example_file, contents = ''payload''\<rparr>]"
    by code_simp
  with fetchUrls_independent [OF h t, of example_env ?options offline] h show ?thesis by simp
qed

text \<open>
  Property C28 (safety). Every file that \<^verbatim>\<open>fetchGithub\<close> emits under an
  expected checksum has that checksum: the file of the release, which is
  fetched without one, is never emitted in place of the asset.
\<close>

theorem fetchGithub_checksum:
  assumes "Inr file \<in> set (fst (fetchGithub env repo options s))"
    and "checksumSha256 options = Some c" and "c \<noteq> []"
  shows "sha256 env (contents file) = c"
proof -
  let ?first = "fetchUrl env (releaseRequest repo options) (apiOptions env options) 10 1000 s"
  from assms(1) obtain release where
    "fst (downloadAsset env repo options release (snd ?first)) = Inr file"
    by (auto simp: fetchGithub_unfold Let_def split: sum.splits)
  then show ?thesis using assms(2,3) by (rule downloadAsset_checksum_ok)
qed

theorem fetchGithub_checksum_witness:
  "fst (fetchGithub example_env ''/owner/repo/'' example_options offline)
     = [Inr \<lparr>cwd = ''/'', base_dir = Absent, file_path = asset_url example_asset,
             contents = ''tarball''\<rparr>] \<and>
   checksumSha256 example_options = Some ''sha:tarball'' \<and>
   sha256 example_env ''tarball'' = ''sha:tarball'' \<and>
   map fst (requested (snd (fetchGithub example_env ''/owner/repo/'' example_options offline)))
     = [example_release, asset_url example_asset]"
proof -
  let ?file = "\<lparr>cwd = ''/'', base_dir = Absent, file_path = asset_url example_asset,
     contents = ''tarball''\<rparr>"
  have run: "fst (fetchGithub example_env ''/owner/repo/'' example_options offline) = [Inr ?file]"
    by code_simp
  have req: "map fst (requested (snd (fetchGithub example_env ''/owner/repo/'' example_options
      offline))) = [example_release, asset_url example_asset]"
    by code_simp
  have c: "checksumSha256 example_options = Some ''sha:tarball''"
    by (simp add: example_options_def)
  from run have "Inr ?file \<in> set (fst (fetchGithub example_env ''/owner/repo/'' example_options
      offline))" by simp
  then have "sha256 example_env (contents ?file) = ''sha:tarball''"
    using c by (rule fetchGithub_checksum) simp
  with run req c show ?thesis by simp
qed

text \<open>
  Property C32 (error). When the release is fetched and none of its assets
  passes the filter, \<^verbatim>\<open>fetchGithub\<close> emits the error that names the
  repository and the version, and makes no request after that for the
  release.
\<close>

theorem fetchGithub_asset_not_found:
  assumes "fst (fetchUrl env (releaseRequest repo options) (apiOptions env options) 10 1000 s)
      = Inr release"
    and "findAsset env options release = Inr None"
  shows "fetchGithub env repo options s
    = ([Inl (AssetNotFound repo (version options))],
       snd (fetchUrl env (releaseRequest repo options) (apiOptions env options) 10 1000 s))"
  using assms by (simp add: fetchGithub_unfold downloadAsset_def)

theorem fetchGithub_asset_not_found_witness:
  "fst (fetchUrl example_env (releaseRequest ''owner/repo'' (example_options\<lparr>name_opt := NameIs ''x''\<rparr>))
         (apiOptions example_env (example_options\<lparr>name_opt := NameIs ''x''\<rparr>)) 10 1000 offline)
     = Inr \<lparr>cwd = ''/'', base_dir = Present ''https://api.github.com'',
            file_path = example_release, contents = ''release''\<rparr> \<and>
   fst (fetchGithub example_env ''owner/repo'' (example_options\<lparr>name_opt := NameIs ''x''\<rparr>) offline)
     = [Inl (AssetNotFound ''owner/repo'' ''1.0'')] \<and>
   map fst (requested (snd (fetchGithub example_env ''owner/repo''
       (example_options\<lparr>name_opt := NameIs ''x''\<rparr>) offline))) = [example_release]"
proof -
  let ?options = "example_options\<lparr>name_opt := NameIs ''x''\<rparr>"
  let ?release = "\<lparr>cwd = ''/'', base_dir = Present ''https://api.github.com'',
     file_path = example_release, contents = ''release''\<rparr>"
  have h1: "fst (fetchUrl example_env (releaseRequest ''owner/repo'' ?options)
      (apiOptions example_env ?options) 10 1000 offline) = Inr ?release"
    by code_simp
  have h2: "findAsset example_env ?options ?release = Inr None" by code_simp
  have req: "map fst (requested (snd (fetchUrl example_env (releaseRequest ''owner/repo'' ?options)
      (apiOptions example_env ?options) 10 1000 offline))) = [example_release]"
    by code_simp
  from fetchGithub_asset_not_found [OF h1 h2] h1 req show ?thesis
    by (simp add: example_options_def)
qed

end
