(* ===== verification/Sysroot.thy ===== *)
theory Sysroot
  imports Fetch
begin

text \<open>
  The installation of a sysroot, \<^verbatim>\<open>install-sysroot.ts\<close> (lines 139--299 of
  \<^verbatim>\<open>src/build/lib/fetch.js\<close>): \<^verbatim>\<open>getSha\<close>, which hashes a file in blocks,
  \<^verbatim>\<open>getVSCodeSysrootChecksum\<close>, which looks a checksum up in a text file,
  and the two installers \<^verbatim>\<open>getVSCodeSysroot\<close> and \<^verbatim>\<open>getChromiumSysroot\<close>, which
  download an archive, verify it, unpack it and leave a stamp.

  The file system is a map from paths to contents and the set of the
  directories that were made; the standard output and the standard error
  are lists of lines. The commands the installers spawn, the servers they
  ask and the hash functions are fields of the environment \<open>sys_env\<close>.
\<close>

section \<open>getSha\<close>

text \<open>
  Lines 158--171. \<^verbatim>\<open>fs.readSync(fd, buffer, 0, buffer.length, position)\<close> copies
  the bytes of the file from \<open>position\<close> on to the start of the buffer, as
  many as the buffer holds and the file has, and returns their number; what
  the buffer held behind them stays. A full buffer is hashed and the next
  block read into the same buffer; after the loop \<^verbatim>\<open>buffer.slice(0, bytesRead)\<close>,
  the part the last read has filled, is hashed. The hash object is the text
  it was fed. The buffer has a byte at least: the source allocates
  \<open>1024 * 1024\<close>, and on a buffer of no bytes its loop would not end. A read
  that returns less than the file has left is not modelled.
\<close>

definition readSync :: "string \<Rightarrow> string \<Rightarrow> nat \<Rightarrow> nat \<times> string" where
  "readSync file buffer position =
     (let bytes = take (length buffer) (drop position file)
      in (length bytes, bytes @ drop (length bytes) buffer))"

lemma readSync_length [simp]: "length (snd (readSync file buffer position)) = length buffer"
  by (simp add: readSync_def Let_def)

lemma readSync_full:
  "fst (readSync file buffer position) = length buffer
    \<Longrightarrow> snd (readSync file buffer position) = take (length buffer) (drop position file) \<and>
      length buffer \<le> length file - position"
  by (auto simp: readSync_def Let_def)

function (sequential) hashBlocks :: "string \<Rightarrow> string \<Rightarrow> nat \<Rightarrow> string \<Rightarrow> string" where
  "hashBlocks file (b # bs) position hash =
     (let (bytesRead, buffer) = readSync file (b # bs) position
      in if bytesRead = length buffer
         then hashBlocks file buffer (position + bytesRead) (hash @ buffer)
         else hash @ take bytesRead buffer)"
  by pat_completeness auto

termination
proof (relation "measure (\<lambda>(f, buffer, position, hash). length f - position)")
  fix f bs hash buffer :: string and b :: char and position bytesRead :: nat and x
  assume "x = readSync f (b # bs) position" and "(bytesRead, buffer) = x"
    and "bytesRead = length buffer"
  then have "fst (readSync f (b # bs) position) = length (b # bs)"
    and "bytesRead = length (b # bs)"
    by (metis fst_conv snd_conv readSync_length)+
  with readSync_full [of f "b # bs" position, THEN conjunct2]
  have "length f - (position + bytesRead) < length f - position" by simp
  then show "((f, buffer, position + bytesRead, hash @ buffer), (f, b # bs, position, hash))
      \<in> measure (\<lambda>(f, buffer, position, hash). length f - position)"
    by simp
qed simp

declare hashBlocks.simps [simp del]

definition bufferLength :: nat where
  "bufferLength = 1024 * 1024"

text \<open>\<^verbatim>\<open>Buffer.alloc\<close>: a buffer of zeros.\<close>

definition Buffer_alloc :: "nat \<Rightarrow> string" where
  "Buffer_alloc n = replicate n (CHR 0x00)"

definition getSha :: "(string \<Rightarrow> string) \<Rightarrow> string \<Rightarrow> string" where
  "getSha digest file = digest (hashBlocks file (Buffer_alloc bufferLength) 0 [])"

lemma hashBlocks_rest:
  "buffer \<noteq> [] \<Longrightarrow> hashBlocks f buffer position hash = hash @ drop position f"
proof (induction f buffer position hash rule: hashBlocks.induct)
  case (1 f b bs position hash)
  let ?n = "length (b # bs)"
  let ?read = "readSync f (b # bs) position"
  show ?case
  proof (cases "fst ?read = ?n")
    case True
    note full = readSync_full [OF True]
    from True have "hashBlocks f (b # bs) position hash
        = hashBlocks f (snd ?read) (position + ?n) (hash @ snd ?read)"
      by (subst hashBlocks.simps) (simp add: case_prod_beta)
    also have "\<dots> = (hash @ snd ?read) @ drop (position + ?n) f"
      using True full by (intro "1.IH" [of ?read]) (auto simp: prod_eq_iff)
    also have "\<dots> = hash @ drop position f"
      using full append_take_drop_id [of ?n "drop position f"] by (simp add: ac_simps)
    finally show ?thesis .
  next
    case False
    then have short: "length f - position < ?n"
      by (auto simp: readSync_def Let_def)
    from False have "hashBlocks f (b # bs) position hash = hash @ take (fst ?read) (snd ?read)"
      by (subst hashBlocks.simps) (simp add: case_prod_beta)
    with short show ?thesis by (simp add: readSync_def Let_def)
  qed
next
  case 2
  then show ?case by simp
qed

section \<open>getVSCodeSysrootChecksum\<close>

text \<open>
  \<^verbatim>\<open>line.split(/\s+/)\<close>: the pieces between runs of white space; a string that
  begins or ends with white space has an empty first or last piece. A
  character of the model is a character below U+0100: of the white space of
  \<^verbatim>\<open>\s\<close> these are the space, the five control characters and the no-break
  space.
\<close>

definition is_space :: "char \<Rightarrow> bool" where
  "is_space c \<longleftrightarrow>
     c \<in> set [CHR '' '', CHR 0x09, CHR 0x0A, CHR 0x0B, CHR 0x0C, CHR 0x0D, CHR 0xA0]"

function split_ws :: "string \<Rightarrow> string list" where
  "split_ws [] = [[]]"
| "split_ws (c # cs) =
     (if is_space c then [] # split_ws (dropWhile is_space cs)
      else (let r = split_ws cs in (c # hd r) # tl r))"
  by pat_completeness auto

termination
  by (relation "measure length") (auto simp: length_dropWhile_le less_Suc_eq_le)

text \<open>Lines 173--182, on the text of \<^verbatim>\<open>build/checksums/vscode-sysroot.txt\<close>.\<close>

definition getVSCodeSysrootChecksum :: "string \<Rightarrow> string \<Rightarrow> string option" where
  "getVSCodeSysrootChecksum checksums expectedName =
     (case find (\<lambda>line. nth_opt (split_ws line) 1 = Some expectedName)
             (js_split CHR 0x0A checksums) of
        None \<Rightarrow> None
      | Some line \<Rightarrow> nth_opt (split_ws line) 0)"

lemma split_ws_word: "(\<And>c. c \<in> set x \<Longrightarrow> \<not> is_space c) \<Longrightarrow> split_ws x = [x]"
  by (induction x) (simp_all add: Let_def)

lemma split_ws_word_space:
  assumes "\<And>c. c \<in> set x \<Longrightarrow> \<not> is_space c" and "is_space b"
  shows "split_ws (x @ b # rest) = x # split_ws (dropWhile is_space rest)"
  using assms(1) by (induction x) (simp_all add: Let_def assms(2))

text \<open>A line of the file as \<^verbatim>\<open>sha256sum\<close> writes it, and a file of such lines.\<close>

definition entry_line :: "string \<times> string \<Rightarrow> string" where
  "entry_line e = fst e @ ''  '' @ snd e"

definition wf_entry :: "string \<times> string \<Rightarrow> bool" where
  "wf_entry e \<longleftrightarrow> list_all (\<lambda>c. \<not> is_space c) (fst e) \<and> list_all (\<lambda>c. \<not> is_space c) (snd e)
     \<and> snd e \<noteq> []"

definition checksum_file :: "(string \<times> string) list \<Rightarrow> string" where
  "checksum_file entries = js_join CHR 0x0A (map entry_line entries @ [[]])"

lemma split_ws_entry_line: "wf_entry e \<Longrightarrow> split_ws (entry_line e) = [fst e, snd e]"
proof -
  assume wf: "wf_entry e"
  then have "split_ws (fst e @ CHR '' '' # CHR '' '' # snd e)
      = fst e # split_ws (dropWhile is_space (CHR '' '' # snd e))"
    by (intro split_ws_word_space) (auto simp: wf_entry_def list_all_iff is_space_def)
  also from wf have "dropWhile is_space (CHR '' '' # snd e) = snd e"
    by (cases "snd e") (auto simp: wf_entry_def is_space_def)
  also from wf have "split_ws (snd e) = [snd e]"
    by (intro split_ws_word) (auto simp: wf_entry_def list_all_iff)
  finally show ?thesis by (simp add: entry_line_def)
qed

lemma entry_line_no_newline: "wf_entry e \<Longrightarrow> CHR 0x0A \<notin> set (entry_line e)"
  by (auto simp: wf_entry_def entry_line_def list_all_iff is_space_def)

lemma lines_checksum_file:
  "list_all wf_entry entries \<Longrightarrow>
     js_split CHR 0x0A (checksum_file entries) = map entry_line entries @ [[]]"
  unfolding checksum_file_def
  by (rule js_split_join) (auto simp: list_all_iff entry_line_no_newline)

lemma find_entry_line:
  "list_all wf_entry entries \<Longrightarrow>
     (case find (\<lambda>line. nth_opt (split_ws line) 1 = Some expectedName)
             (map entry_line entries @ [[]]) of
        None \<Rightarrow> None
      | Some line \<Rightarrow> nth_opt (split_ws line) 0)
     = map_of (map (\<lambda>e. (snd e, fst e)) entries) expectedName"
  by (induction entries) (auto simp: split_ws_entry_line)

lemma getVSCodeSysrootChecksum_file:
  assumes "list_all wf_entry entries"
  shows "getVSCodeSysrootChecksum (checksum_file entries) name
    = map_of (map (\<lambda>e. (snd e, fst e)) entries) name"
  unfolding getVSCodeSysrootChecksum_def lines_checksum_file [OF assms]
  using assms by (rule find_entry_line)

section \<open>The world of the installers\<close>

datatype DebianArchString = amd64 | arm64 | armhf

fun arch_name :: "DebianArchString \<Rightarrow> string" where
  "arch_name amd64 = ''amd64''"
| "arch_name arm64 = ''arm64''"
| "arch_name armhf = ''armhf''"

record SysrootDictEntry =
  Sha1Sum :: string
  SysrootDir :: string
  Tarball :: string

datatype sys_error =
    ChecksumNotFound string
  | NoSuchFile string
  | EEXIST string
  | ENOENT string
  | CannotRetrieve string
  | NoSysrootEntry string
  | DownloadFailed string
  | WrongSha string string
  | ExtractionFailed int
  | StreamError fetch_error
  | UnpackError string
  | RequireError string string
  | DestError string string
  | NotAFunction string
  | InvalidArgType string

text \<open>What an \<^verbatim>\<open>https.get\<close> meets: the chunks it receives, and the end or an error.\<close>

datatype get_outcome = Ended "string list" | Errored "string list" string

record spawned =
  exit_status :: "int option"
  stderr :: string

record sys_env =
  fetching :: fetch_env
  tmpdir :: string
  repo_root :: string
  sysrootRepository :: string
  electronVersion :: string
  sha1 :: "string \<Rightarrow> string"
  curl :: "string \<Rightarrow> spawned \<times> string option"
  sysroots :: "string \<Rightarrow> string \<Rightarrow> SysrootDictEntry option"
  https_get :: "string \<Rightarrow> nat \<Rightarrow> get_outcome"
  tar_xf :: "string \<Rightarrow> spawned \<times> (string \<times> string) list"
  gunzip_untar :: "buffer \<Rightarrow> string + (string \<times> string) list"
  require_error :: "string \<Rightarrow> string option"
  dest_error :: "string \<Rightarrow> string option"

text \<open>
  The machine: the files by their paths, the directories that exist, the
  lines written to the standard output and to the standard error, the
  network of theory \<open>Fetch\<close>, and the number of requests \<^verbatim>\<open>https.get\<close> has made.
\<close>

record world =
  fs :: "string \<Rightarrow> string option"
  dirs :: "string set"
  console :: "string list"
  error_lines :: "string list"
  network :: net
  gets :: nat

definition path_join :: "string \<Rightarrow> string \<Rightarrow> string" where
  "path_join dir name = dir @ ''/'' @ name"

text \<open>
  \<^verbatim>\<open>path.dirname\<close>: the path without its last segment and the slashes before
  it; \<^verbatim>\<open>/\<close> for a segment of the root and \<^verbatim>\<open>.\<close> for a lone segment.
\<close>

definition path_dirname :: "string \<Rightarrow> string" where
  "path_dirname p =
     (let slash = (\<lambda>c. c = CHR ''/'');
          stem = dropWhile slash (rev p);
          dir = rev (dropWhile slash (dropWhile (\<lambda>c. \<not> slash c) stem))
      in if dir \<noteq> [] then dir else if take 1 p = ''/'' then ''/'' else ''.'')"

definition existsSync :: "string \<Rightarrow> world \<Rightarrow> bool" where
  "existsSync p w \<longleftrightarrow> fs w p \<noteq> None \<or> p \<in> dirs w"

definition writeFileSync :: "string \<Rightarrow> string \<Rightarrow> world \<Rightarrow> world" where
  "writeFileSync p text w = w\<lparr>fs := (fs w)(p \<mapsto> text)\<rparr>"

definition appendFileSync :: "string \<Rightarrow> string \<Rightarrow> world \<Rightarrow> world" where
  "appendFileSync p chunk w =
     w\<lparr>fs := (fs w)(p \<mapsto> (case fs w p of None \<Rightarrow> chunk | Some text \<Rightarrow> text @ chunk))\<rparr>"

definition rmSync :: "string \<Rightarrow> world \<Rightarrow> world" where
  "rmSync p w = w\<lparr>fs := (fs w)(p := None)\<rparr>"

definition inside :: "string \<Rightarrow> string \<Rightarrow> bool" where
  "inside dir p \<longleftrightarrow> p = dir \<or> take (Suc (length dir)) p = dir @ ''/''"

definition rmSync_recursive :: "string \<Rightarrow> world \<Rightarrow> world" where
  "rmSync_recursive dir w =
     w\<lparr>fs := (\<lambda>p. if inside dir p then None else fs w p),
       dirs := {p \<in> dirs w. \<not> inside dir p}\<rparr>"

text \<open>
  \<^verbatim>\<open>fs.mkdirSync(p)\<close> makes one directory: it throws when the path exists and
  when its parent is not a directory.
\<close>

definition mkdirSync :: "string \<Rightarrow> world \<Rightarrow> sys_error + world" where
  "mkdirSync p w =
     (if existsSync p w then Inl (EEXIST p)
      else if path_dirname p \<notin> dirs w then Inl (ENOENT p)
      else Inr (w\<lparr>dirs := insert p (dirs w)\<rparr>))"

definition console_log :: "string \<Rightarrow> world \<Rightarrow> world" where
  "console_log line w = w\<lparr>console := console w @ [line]\<rparr>"

definition console_error :: "string \<Rightarrow> world \<Rightarrow> world" where
  "console_error line w = w\<lparr>error_lines := error_lines w @ [line]\<rparr>"

text \<open>
  The test of lines 215 and 256, \<^verbatim>\<open>fs.existsSync(stamp) && fs.readFileSync(stamp).toString() === expected\<close>,
  on a stamp that is a file when it exists.
\<close>

definition stamped :: "string \<Rightarrow> string \<Rightarrow> world \<Rightarrow> bool" where
  "stamped stamp expected w \<longleftrightarrow> fs w stamp = Some expected"

definition readFileSync :: "string \<Rightarrow> world \<Rightarrow> string" where
  "readFileSync p w = (case fs w p of None \<Rightarrow> [] | Some text \<Rightarrow> text)"

text \<open>The files of an archive, written below a directory.\<close>

definition writeEntries :: "string \<Rightarrow> (string \<times> string) list \<Rightarrow> world \<Rightarrow> world" where
  "writeEntries dir entries w =
     fold (\<lambda>entry. writeFileSync (path_join dir (fst entry)) (snd entry)) entries w"

section \<open>getChromiumSysroot\<close>

definition URL_PREFIX :: string where
  "URL_PREFIX = ''https://msftelectron.blob.core.windows.net''"

definition URL_PATH :: string where
  "URL_PATH = ''sysroots/toolchain''"

definition sysrootArch :: "DebianArchString \<Rightarrow> string" where
  "sysrootArch arch = (if arch = armhf then ''bullseye_arm'' else ''bullseye_'' @ arch_name arch)"

text \<open>Lines 268--281: one request; the chunks go to the end of the tarball.\<close>

definition httpsGet :: "sys_env \<Rightarrow> string \<Rightarrow> string \<Rightarrow> world \<Rightarrow> bool \<times> world" where
  "httpsGet env url tarball w =
     (let w1 = w\<lparr>gets := Suc (gets w)\<rparr>
      in case https_get env url (gets w) of
           Ended chunks \<Rightarrow> (True, fold (appendFileSync tarball) chunks w1)
         | Errored chunks msg \<Rightarrow>
             (False, console_error (''Encountered an error during the download attempt: '' @ msg)
                       (fold (appendFileSync tarball) chunks w1)))"

text \<open>Lines 265--282: \<^verbatim>\<open>for (let i = 0; i < 3 && !downloadSuccess; i++)\<close>.\<close>

function downloadLoop ::
    "sys_env \<Rightarrow> string \<Rightarrow> string \<Rightarrow> nat \<Rightarrow> bool \<Rightarrow> world \<Rightarrow> bool \<times> world" where
  "downloadLoop env url tarball i downloadSuccess w =
     (if i < 3 \<and> \<not> downloadSuccess
      then (let (ended, w1) = httpsGet env url tarball (writeFileSync tarball [] w)
            in downloadLoop env url tarball (Suc i) ended w1)
      else (downloadSuccess, w))"
  by pat_completeness auto

termination
  by (relation "measure (\<lambda>(env, url, tarball, i, downloadSuccess, w). 3 - i)") auto

declare downloadLoop.simps [simp del]

text \<open>\<^verbatim>\<open>if (proc.status)\<close>: a number other than 0.\<close>

fun failed_status :: "int option \<Rightarrow> bool" where
  "failed_status None = False"
| "failed_status (Some n) = (n \<noteq> 0)"

text \<open>
  Lines 260--298: the installation when the stamp is not there. What
  \<^verbatim>\<open>fs.mkdirSync\<close> throws is thrown by the function.
\<close>

definition installChromiumSysroot ::
    "sys_env \<Rightarrow> string \<Rightarrow> SysrootDictEntry \<Rightarrow> string \<Rightarrow> string \<Rightarrow> string \<Rightarrow> world
      \<Rightarrow> (sys_error + string) \<times> world" where
  "installChromiumSysroot env arch sysrootDict sysroot url stamp w =
     (let w1 = console_log (''Installing Debian '' @ arch @ '' root image: '' @ sysroot) w;
          w2 = rmSync_recursive sysroot w1
      in case mkdirSync sysroot w2 of
           Inl e \<Rightarrow> (Inl e, w2)
         | Inr w3 \<Rightarrow>
      (let tarball = path_join sysroot (Tarball sysrootDict);
           w4 = console_log (''Downloading '' @ url) w3;
           (downloadSuccess, w5) = downloadLoop env url tarball 0 False w4
       in if \<not> downloadSuccess then (Inl (DownloadFailed url), rmSync tarball w5)
          else
            (let sha = getSha (sha1 env) (readFileSync tarball w5)
             in if sha \<noteq> Sha1Sum sysrootDict then (Inl (WrongSha (Sha1Sum sysrootDict) sha), w5)
                else
                  (let (proc, entries) = tar_xf env (readFileSync tarball w5);
                       w6 = writeEntries sysroot entries w5
                   in if failed_status (exit_status proc)
                      then (Inl (ExtractionFailed (the (exit_status proc))), w6)
                      else (Inr sysroot, writeFileSync stamp url (rmSync tarball w6))))))"

text \<open>Lines 242--250: \<^verbatim>\<open>sysroots.json\<close> is fetched with curl and the entry of the architecture read.\<close>

definition sysrootDictLocation :: "sys_env \<Rightarrow> string" where
  "sysrootDictLocation env = tmpdir env @ ''/sysroots.json''"

definition sysrootJSONUrl :: "sys_env \<Rightarrow> string" where
  "sysrootJSONUrl env = ''https://raw.githubusercontent.com/electron/electron/v''
     @ electronVersion env @ ''/script/sysroots.json''"

definition fetchSysrootDict ::
    "sys_env \<Rightarrow> DebianArchString \<Rightarrow> world \<Rightarrow> (sys_error + SysrootDictEntry) \<times> world" where
  "fetchSysrootDict env arch w =
     (let (result, written) = curl env (sysrootJSONUrl env);
          w0 = (case written of
                  None \<Rightarrow> w
                | Some text \<Rightarrow> writeFileSync (sysrootDictLocation env) text w)
      in if exit_status result \<noteq> Some 0 then (Inl (CannotRetrieve (stderr result)), w0)
         else case fs w0 (sysrootDictLocation env) of
           None \<Rightarrow> (Inl (NoSuchFile (sysrootDictLocation env)), w0)
         | Some text \<Rightarrow>
             (case sysroots env text (sysrootArch arch) of
                None \<Rightarrow> (Inl (NoSysrootEntry (sysrootArch arch)), w0)
              | Some sysrootDict \<Rightarrow> (Inr sysrootDict, w0)))"

text \<open>Line 254.\<close>

definition sysrootUrl :: "SysrootDictEntry \<Rightarrow> string" where
  "sysrootUrl sysrootDict =
     js_join CHR ''/'' [URL_PREFIX, URL_PATH, Sha1Sum sysrootDict, Tarball sysrootDict]"

text \<open>Lines 241--299.\<close>

definition getChromiumSysroot ::
    "sys_env \<Rightarrow> DebianArchString \<Rightarrow> world \<Rightarrow> (sys_error + string) \<times> world" where
  "getChromiumSysroot env arch w =
     (let (found, w0) = fetchSysrootDict env arch w
      in case found of
           Inl e \<Rightarrow> (Inl e, w0)
         | Inr sysrootDict \<Rightarrow>
             (let sysroot = path_join (tmpdir env) (SysrootDir sysrootDict);
                  url = sysrootUrl sysrootDict;
                  stamp = path_join sysroot ''.stamp''
              in if stamped stamp url w0 then (Inr sysroot, w0)
                 else installChromiumSysroot env (arch_name arch) sysrootDict sysroot url stamp w0))"

section \<open>getVSCodeSysroot\<close>

text \<open>
  How the promise of \<^verbatim>\<open>getVSCodeSysroot\<close> ends. What the executor of the promise
  throws rejects it. The handler of line 235 listens
  on the last stream of the pipe, and a pipe does not hand the errors of a
  stream on to the next: an error of the download or of the unpacking is an
  \<^verbatim>\<open>error\<close> event nobody listens to, which ends the process and leaves the
  promise unsettled. That is \<open>Uncaught\<close>.
\<close>

datatype 'a settled = Resolved 'a | Rejected sys_error | Uncaught sys_error

fun expectedName :: "DebianArchString \<Rightarrow> string" where
  "expectedName amd64 = ''x86_64-vscode-linux-gnu.tar.gz''"
| "expectedName arm64 = ''aarch64-vscode-linux-gnu.tar.gz''"
| "expectedName armhf = ''arm-vscode-linux-gnueabihf.tar.gz''"

fun triple :: "DebianArchString \<Rightarrow> string" where
  "triple amd64 = ''x86_64-vscode-linux-gnu''"
| "triple arm64 = ''aarch64-vscode-linux-gnu''"
| "triple armhf = ''arm-vscode-linux-gnueabihf''"

text \<open>
  Lines 222--225: the modules and \<^verbatim>\<open>product.json\<close> are loaded inside the
  executor, one after the other; what the loading of one throws rejects the
  promise.
\<close>

fun requireAll :: "sys_env \<Rightarrow> string list \<Rightarrow> sys_error option" where
  "requireAll env [] = None"
| "requireAll env (name # names) =
     (case require_error env name of
        Some msg \<Rightarrow> Some (RequireError name msg)
      | None \<Rightarrow> requireAll env names)"

definition sysrootModules :: "sys_env \<Rightarrow> string list" where
  "sysrootModules env =
     [''gulp'', ''gulp-gunzip'', ''gulp-untar'', path_join (repo_root env) ''product.json'']"

text \<open>
  \<^verbatim>\<open>gulp.dest(sysroot)\<close>, the last stream of the pipe: it writes the files it
  is handed below the directory, and the first one it cannot write is its
  \<^verbatim>\<open>error\<close> event, after which it writes no more.
\<close>

fun gulp_dest ::
    "sys_env \<Rightarrow> string \<Rightarrow> (string \<times> string) list \<Rightarrow> world \<Rightarrow> sys_error option \<times> world" where
  "gulp_dest env dir [] w = (None, w)"
| "gulp_dest env dir (entry # entries) w =
     (case dest_error env (path_join dir (fst entry)) of
        Some msg \<Rightarrow> (Some (DestError (path_join dir (fst entry)) msg), w)
      | None \<Rightarrow> gulp_dest env dir entries (writeFileSync (path_join dir (fst entry)) (snd entry) w))"

text \<open>
  Lines 227--237: every file the download emits is unpacked and written
  below the sysroot. The pipe ends (\<open>Resolved\<close>), or its last stream has an
  error, which the handler of line 235 is told (\<open>Rejected\<close>), or a stream
  before the last has one, which nobody is told (\<open>Uncaught\<close>).
\<close>

fun unpackEach ::
    "sys_env \<Rightarrow> string \<Rightarrow> VinylFile fetch_result list \<Rightarrow> world \<Rightarrow> unit settled \<times> world" where
  "unpackEach env sysroot [] w = (Resolved (), w)"
| "unpackEach env sysroot (Inl e # rest) w = (Uncaught (StreamError e), w)"
| "unpackEach env sysroot (Inr file # rest) w =
     (case gunzip_untar env (contents file) of
        Inl msg \<Rightarrow> (Uncaught (UnpackError msg), w)
      | Inr entries \<Rightarrow>
          (case gulp_dest env sysroot entries w of
             (Some e, w') \<Rightarrow> (Rejected e, w')
           | (None, w') \<Rightarrow> unpackEach env sysroot rest w'))"

definition sysrootAsset :: "DebianArchString \<Rightarrow> string \<Rightarrow> string option \<Rightarrow> IGitHubAssetOptions" where
  "sysrootAsset arch sysroot checksum =
     \<lparr>verbose_opt = None, path_opt = Some sysroot, checksumSha256 = checksum,
      version = ''20231120-245067'', name_opt = NameIs (expectedName arch)\<rparr>"

text \<open>
  Lines 219--237: the installation when the stamp is not there. The directory
  is made and the modules are loaded inside the executor, so the promise is
  rejected when one of them fails.
\<close>

definition installVSCodeSysroot ::
    "sys_env \<Rightarrow> DebianArchString \<Rightarrow> string option \<Rightarrow> string \<Rightarrow> string \<Rightarrow> world
      \<Rightarrow> string settled \<times> world" where
  "installVSCodeSysroot env arch checksum sysroot stamp w =
     (let w1 = console_log (''Installing '' @ arch_name arch @ '' root image: '' @ sysroot) w;
          w2 = rmSync_recursive sysroot w1
      in case mkdirSync sysroot w2 of
           Inl e \<Rightarrow> (Rejected e, w2)
         | Inr w3 \<Rightarrow>
      (case requireAll env (sysrootModules env) of
         Some e \<Rightarrow> (Rejected e, w3)
       | None \<Rightarrow>
      (let (emitted, n) = fetchGithub (fetching env) (sysrootRepository env)
                            (sysrootAsset arch sysroot checksum) (network w3);
           (ending, w4) = unpackEach env sysroot emitted (w3\<lparr>network := n\<rparr>)
       in case ending of
            Uncaught e \<Rightarrow> (Uncaught e, w4)
          | Rejected e \<Rightarrow> (Rejected e, w4)
          | Resolved u \<Rightarrow>
              (Resolved (sysroot @ ''/'' @ triple arch @ ''/'' @ triple arch @ ''/sysroot''),
               writeFileSync stamp (expectedName arch) w4))))"

text \<open>Lines 174 and 213--214: the paths.\<close>

definition checksumsPath :: "sys_env \<Rightarrow> string" where
  "checksumsPath env = repo_root env @ ''/build/checksums/vscode-sysroot.txt''"

definition vscodeSysroot :: "sys_env \<Rightarrow> DebianArchString \<Rightarrow> string" where
  "vscodeSysroot env arch = path_join (tmpdir env) (''vscode-'' @ arch_name arch @ ''-sysroot'')"

text \<open>Lines 190--239.\<close>

definition getVSCodeSysroot ::
    "sys_env \<Rightarrow> DebianArchString \<Rightarrow> world \<Rightarrow> string settled \<times> world" where
  "getVSCodeSysroot env arch w =
     (case fs w (checksumsPath env) of
        None \<Rightarrow> (Rejected (NoSuchFile (checksumsPath env)), w)
      | Some text \<Rightarrow>
          (let checksumSha256 = getVSCodeSysrootChecksum text (expectedName arch)
           in if \<not> truthy checksumSha256
              then (Rejected (ChecksumNotFound (expectedName arch)), w)
              else
                (let sysroot = vscodeSysroot env arch;
                     stamp = path_join sysroot ''.stamp''
                 in if stamped stamp (expectedName arch) w then (Resolved sysroot, w)
                    else installVSCodeSysroot env arch checksumSha256 sysroot stamp w)))"

section \<open>Lemmas on the file system\<close>

lemma inside_path_join [simp]: "inside dir (path_join dir name)"
  by (simp add: inside_def path_join_def)

lemma fs_writeFileSync [simp]:
  "fs (writeFileSync p text w) q = (if q = p then Some text else fs w q)"
  by (simp add: writeFileSync_def)

lemma fs_appendFileSync_other [simp]: "q \<noteq> p \<Longrightarrow> fs (appendFileSync p chunk w) q = fs w q"
  by (simp add: appendFileSync_def)

lemma fs_rmSync [simp]: "fs (rmSync p w) q = (if q = p then None else fs w q)"
  by (simp add: rmSync_def)

lemma fs_rmSync_recursive [simp]:
  "fs (rmSync_recursive dir w) q = (if inside dir q then None else fs w q)"
  by (simp add: rmSync_recursive_def)

lemma fs_console_log [simp]: "fs (console_log line w) = fs w" "fs (console_error line w) = fs w"
  by (simp_all add: console_log_def console_error_def)

lemmas fs_op_defs = writeFileSync_def appendFileSync_def rmSync_def rmSync_recursive_def
  console_log_def console_error_def

lemma gets_simps [simp]:
  "gets (writeFileSync p text w) = gets w" "gets (appendFileSync p chunk w) = gets w"
  "gets (rmSync p w) = gets w" "gets (rmSync_recursive dir w) = gets w"
  "gets (console_log line w) = gets w" "gets (console_error line w) = gets w"
  by (simp_all add: fs_op_defs)

lemma dirs_simps [simp]:
  "dirs (writeFileSync p text w) = dirs w" "dirs (appendFileSync p chunk w) = dirs w"
  "dirs (rmSync p w) = dirs w" "dirs (console_log line w) = dirs w"
  "dirs (console_error line w) = dirs w"
  by (simp_all add: fs_op_defs)

lemma console_simps [simp]:
  "console (writeFileSync p text w) = console w" "console (appendFileSync p chunk w) = console w"
  "console (rmSync p w) = console w" "console (rmSync_recursive dir w) = console w"
  "console (console_error line w) = console w"
  "console (console_log line w) = console w @ [line]"
  by (simp_all add: fs_op_defs)

lemma network_simps [simp]:
  "network (writeFileSync p text w) = network w" "network (rmSync_recursive dir w) = network w"
  "network (console_log line w) = network w"
  by (simp_all add: fs_op_defs)

subsection \<open>Making a directory\<close>

lemma inside_self [simp]: "inside dir dir"
  by (simp add: inside_def)

lemma inside_longer: "inside dir p \<Longrightarrow> length dir \<le> length p"
  by (auto simp: inside_def dest: arg_cong [where f = length])

lemma dropWhile_hd: "xs \<noteq> [] \<Longrightarrow> \<not> P (hd xs) \<Longrightarrow> dropWhile P xs = xs"
  by (cases xs) simp_all

lemma path_dirname_join:
  assumes "name \<noteq> []" and "CHR ''/'' \<notin> set name" and "dir \<noteq> []" and "last dir \<noteq> CHR ''/''"
  shows "path_dirname (path_join dir name) = dir"
proof -
  let ?slash = "\<lambda>c. c = CHR ''/''"
  have r: "rev (path_join dir name) = rev name @ CHR ''/'' # rev dir"
    by (simp add: path_join_def)
  from assms(1,2) have "last name \<noteq> CHR ''/''" by (metis last_in_set)
  with assms(1) have stem: "dropWhile ?slash (rev name @ CHR ''/'' # rev dir) = rev name @ CHR ''/'' # rev dir"
    by (intro dropWhile_hd) (simp_all add: hd_rev)
  from assms(2) have a: "dropWhile (\<lambda>c. \<not> ?slash c) (rev name @ CHR ''/'' # rev dir) = CHR ''/'' # rev dir"
    by (auto simp: dropWhile_append3)
  from assms(3,4) have b: "dropWhile ?slash (rev dir) = rev dir"
    by (intro dropWhile_hd) (simp_all add: hd_rev)
  have d: "rev (dropWhile ?slash (dropWhile (\<lambda>c. \<not> ?slash c)
      (dropWhile ?slash (rev (path_join dir name))))) = dir"
    unfolding r stem a using b by simp
  show ?thesis
    unfolding path_dirname_def Let_def d using assms(3) by simp
qed

text \<open>
  Whether the directory can be made once what was there has been removed:
  its parent must be a directory outside it.
\<close>

definition mkdirFailure :: "string \<Rightarrow> world \<Rightarrow> sys_error option" where
  "mkdirFailure p w =
     (if path_dirname p \<in> dirs w \<and> \<not> inside p (path_dirname p) then None else Some (ENOENT p))"

lemma mkdirFailure_console_log [simp]: "mkdirFailure p (console_log line w) = mkdirFailure p w"
  by (simp add: mkdirFailure_def)

lemma mkdirFailure_writeFileSync [simp]: "mkdirFailure p (writeFileSync q text w) = mkdirFailure p w"
  by (simp add: mkdirFailure_def)

lemma mkdirSync_rmSync_recursive:
  "mkdirSync p (rmSync_recursive p w) =
     (case mkdirFailure p w of
        Some e \<Rightarrow> Inl e
      | None \<Rightarrow> Inr ((rmSync_recursive p w)\<lparr>dirs := insert p (dirs (rmSync_recursive p w))\<rparr>))"
  by (simp add: mkdirSync_def mkdirFailure_def existsSync_def rmSync_recursive_def)

lemma mkdirFailure_join:
  assumes "name \<noteq> []" and "CHR ''/'' \<notin> set name" and "dir \<noteq> []" and "last dir \<noteq> CHR ''/''"
  shows "mkdirFailure (path_join dir name) w
    = (if dir \<in> dirs w then None else Some (ENOENT (path_join dir name)))"
proof -
  have "\<not> inside (path_join dir name) dir"
    using inside_longer [of "path_join dir name" dir] by (auto simp: path_join_def)
  then show ?thesis
    by (simp add: mkdirFailure_def path_dirname_join [OF assms])
qed

lemma fold_appendFileSync:
  "fs w p = Some t \<Longrightarrow>
     fs (fold (appendFileSync p) chunks w) = (fs w)(p \<mapsto> t @ concat chunks)"
proof (induction chunks arbitrary: w t)
  case Nil
  then show ?case by (simp add: fun_upd_idem)
next
  case (Cons chunk chunks)
  have "fs (appendFileSync p chunk w) p = Some (t @ chunk)"
    by (simp add: appendFileSync_def Cons.prems)
  from Cons.IH [OF this]
  have "fs (fold (appendFileSync p) chunks (appendFileSync p chunk w))
      = (fs (appendFileSync p chunk w))(p \<mapsto> (t @ chunk) @ concat chunks)" .
  also have "\<dots> = (fs w)(p \<mapsto> t @ concat (chunk # chunks))"
    by (auto simp: fun_eq_iff)
  finally show ?case by simp
qed

lemma gets_fold_appendFileSync [simp]: "gets (fold (appendFileSync p) chunks w) = gets w"
  by (induction chunks arbitrary: w) simp_all

lemma fs_writeEntries_outside:
  "\<not> inside dir q \<Longrightarrow> fs (writeEntries dir entries w) q = fs w q"
  unfolding writeEntries_def
proof (induction entries arbitrary: w)
  case Nil
  show ?case by simp
next
  case (Cons entry entries)
  from Cons.prems have "q \<noteq> path_join dir (fst entry)"
    using inside_path_join [of dir "fst entry"] by auto
  with Cons show ?case by simp
qed

lemma gets_writeEntries [simp]: "gets (writeEntries dir entries w) = gets w"
  unfolding writeEntries_def by (induction entries arbitrary: w) simp_all

lemma network_writeEntries [simp]: "network (writeEntries dir entries w) = network w"
  unfolding writeEntries_def by (induction entries arbitrary: w) simp_all

lemma console_writeEntries [simp]: "console (writeEntries dir entries w) = console w"
  unfolding writeEntries_def by (induction entries arbitrary: w) simp_all

section \<open>The download loop against its specification\<close>

fun ended :: "get_outcome \<Rightarrow> bool" where
  "ended (Ended chunks) = True"
| "ended (Errored chunks msg) = False"

fun received :: "get_outcome \<Rightarrow> string" where
  "received (Ended chunks) = concat chunks"
| "received (Errored chunks msg) = concat chunks"

lemma httpsGet_result [simp]:
  "fst (httpsGet env url tarball w) = ended (https_get env url (gets w))"
  by (simp add: httpsGet_def Let_def split: get_outcome.splits)

lemma httpsGet_gets [simp]: "gets (snd (httpsGet env url tarball w)) = Suc (gets w)"
  by (simp add: httpsGet_def Let_def split: get_outcome.splits)

lemma httpsGet_fs:
  "fs w tarball = Some t \<Longrightarrow>
     fs (snd (httpsGet env url tarball w))
       = (fs w)(tarball \<mapsto> t @ received (https_get env url (gets w)))"
  by (simp add: httpsGet_def Let_def fold_appendFileSync split: get_outcome.splits)

lemma downloadLoop_unfold:
  "downloadLoop env url tarball i d w =
     (if i < 3 \<and> \<not> d
      then downloadLoop env url tarball (Suc i)
             (fst (httpsGet env url tarball (writeFileSync tarball [] w)))
             (snd (httpsGet env url tarball (writeFileSync tarball [] w)))
      else (d, w))"
  by (subst downloadLoop.simps) (simp add: case_prod_beta)

lemma downloadLoop_done [simp]: "downloadLoop env url tarball i True w = (True, w)"
  by (subst downloadLoop_unfold) simp

text \<open>The request that decides the loop: the first that ends, or the third.\<close>

definition decidingGet :: "sys_env \<Rightarrow> string \<Rightarrow> nat \<Rightarrow> world \<Rightarrow> nat" where
  "decidingGet env url i w = first_ok (\<lambda>k. ended (https_get env url k)) (gets w) (2 - i)"

lemma downloadLoop_spec:
  "i < 3 \<Longrightarrow>
     fst (downloadLoop env url tarball i False w)
       = ended (https_get env url (decidingGet env url i w)) \<and>
     gets (snd (downloadLoop env url tarball i False w)) = Suc (decidingGet env url i w) \<and>
     fs (snd (downloadLoop env url tarball i False w))
       = (fs w)(tarball \<mapsto> received (https_get env url (decidingGet env url i w)))"
proof (induction "2 - i" arbitrary: i w)
  case 0
  then have i: "i = 2" by simp
  have "fs (writeFileSync tarball [] w) tarball = Some []" by simp
  from httpsGet_fs [OF this, of env url] show ?case
    by (subst (1 2 3) downloadLoop_unfold, subst (1 2 3) downloadLoop_unfold)
      (simp add: i decidingGet_def fun_eq_iff)
next
  case (Suc n)
  let ?w = "writeFileSync tarball [] w"
  let ?h = "httpsGet env url tarball ?w"
  from Suc.hyps(2) have i: "i < 2" and n: "n = 2 - Suc i" and two: "2 - i = Suc (2 - Suc i)"
    by simp_all
  have fs: "fs (snd ?h) = (fs w)(tarball \<mapsto> received (https_get env url (gets w)))"
    using httpsGet_fs [of ?w tarball "[]" env url] by (simp add: fun_eq_iff)
  have step: "downloadLoop env url tarball i False w
      = downloadLoop env url tarball (Suc i) (fst ?h) (snd ?h)"
    using i by (subst downloadLoop_unfold) simp
  show ?case
  proof (cases "ended (https_get env url (gets w))")
    case True
    then have "decidingGet env url i w = gets w"
      by (simp add: decidingGet_def two)
    with True fs show ?thesis by (simp add: step)
  next
    case False
    then have "decidingGet env url i w = decidingGet env url (Suc i) (snd ?h)"
      by (simp add: decidingGet_def two)
    with False fs Suc.hyps(1) [OF n, of "snd ?h"] i show ?thesis
      by (simp add: step)
  qed
qed

lemmas downloadLoop_result = downloadLoop_spec [THEN conjunct1]
lemmas downloadLoop_gets = downloadLoop_spec [THEN conjunct2, THEN conjunct1]
lemmas downloadLoop_fs = downloadLoop_spec [THEN conjunct2, THEN conjunct2]

lemma decidingGet_bounds:
  "gets w \<le> decidingGet env url 0 w" "decidingGet env url 0 w \<le> gets w + 2"
  using first_ok_bounds [of "gets w" "\<lambda>k. ended (https_get env url k)" 2]
  by (simp_all add: decidingGet_def)

section \<open>Lemmas on the installers\<close>

lemma getSha_digest: "getSha digest f = digest f"
  by (simp add: getSha_def hashBlocks_rest bufferLength_def Buffer_alloc_def)

lemma stamp_not_tarball_dir [simp]: "path_join dir ''.stamp'' \<noteq> dir"
  by (simp add: path_join_def)

text \<open>What a successful installation went through.\<close>

lemma installChromiumSysroot_ok:
  assumes "fst (installChromiumSysroot env arch d sysroot url stamp w) = Inr dir"
  shows "dir = sysroot \<and> mkdirFailure sysroot w = None \<and>
    ended (https_get env url (decidingGet env url 0 w)) \<and>
    sha1 env (received (https_get env url (decidingGet env url 0 w))) = Sha1Sum d \<and>
    \<not> failed_status (exit_status (fst (tar_xf env
         (received (https_get env url (decidingGet env url 0 w)))))) \<and>
    gets (snd (installChromiumSysroot env arch d sysroot url stamp w))
      = Suc (decidingGet env url 0 w) \<and>
    fs (snd (installChromiumSysroot env arch d sysroot url stamp w)) stamp = Some url"
  using assms
  by (simp add: installChromiumSysroot_def Let_def case_prod_beta readFileSync_def getSha_digest
      mkdirSync_rmSync_recursive downloadLoop_spec [of 0, simplified] decidingGet_def
      split: if_splits option.splits)

lemma gets_fetchSysrootDict [simp]: "gets (snd (fetchSysrootDict env arch w)) = gets w"
  by (simp add: fetchSysrootDict_def Let_def case_prod_beta split: option.splits)

lemma getChromiumSysroot_cases:
  assumes "fst (getChromiumSysroot env arch w) = Inr dir"
  obtains d w0 where "fetchSysrootDict env arch w = (Inr d, w0)"
    and "dir = path_join (tmpdir env) (SysrootDir d)"
    and "stamped (path_join dir ''.stamp'') (sysrootUrl d) w0
           \<and> getChromiumSysroot env arch w = (Inr dir, w0)
         \<or> \<not> stamped (path_join dir ''.stamp'') (sysrootUrl d) w0
           \<and> getChromiumSysroot env arch w
               = installChromiumSysroot env (arch_name arch) d dir (sysrootUrl d)
                   (path_join dir ''.stamp'') w0"
proof (cases "fetchSysrootDict env arch w")
  case (Pair found w0)
  show ?thesis
  proof (cases found)
    case (Inl e)
    with Pair assms show ?thesis by (simp add: getChromiumSysroot_def)
  next
    case (Inr d)
    let ?dir = "path_join (tmpdir env) (SysrootDir d)"
    show ?thesis
    proof (cases "stamped (path_join ?dir ''.stamp'') (sysrootUrl d) w0")
      case True
      with Pair Inr assms that [of d w0] show ?thesis
        by (simp add: getChromiumSysroot_def Let_def)
    next
      case False
      with Pair Inr have run: "getChromiumSysroot env arch w
          = installChromiumSysroot env (arch_name arch) d ?dir (sysrootUrl d)
              (path_join ?dir ''.stamp'') w0"
        by (simp add: getChromiumSysroot_def Let_def)
      with assms have "dir = ?dir"
        using installChromiumSysroot_ok [of env "arch_name arch" d ?dir "sysrootUrl d" _ w0 dir]
        by simp
      with Pair Inr False run that [of d w0] show ?thesis by simp
    qed
  qed
qed

text \<open>
  How \<^verbatim>\<open>gulp.dest\<close> and the pipe end, as functions of what they are handed:
  the first file that cannot be written, and the first error of the pipe.
\<close>

fun destFailure :: "sys_env \<Rightarrow> string \<Rightarrow> (string \<times> string) list \<Rightarrow> sys_error option" where
  "destFailure env dir [] = None"
| "destFailure env dir (entry # entries) =
     (case dest_error env (path_join dir (fst entry)) of
        Some msg \<Rightarrow> Some (DestError (path_join dir (fst entry)) msg)
      | None \<Rightarrow> destFailure env dir entries)"

fun unpackEnding :: "sys_env \<Rightarrow> string \<Rightarrow> VinylFile fetch_result list \<Rightarrow> unit settled" where
  "unpackEnding env dir [] = Resolved ()"
| "unpackEnding env dir (Inl e # rest) = Uncaught (StreamError e)"
| "unpackEnding env dir (Inr archive # rest) =
     (case gunzip_untar env (contents archive) of
        Inl msg \<Rightarrow> Uncaught (UnpackError msg)
      | Inr entries \<Rightarrow>
          (case destFailure env dir entries of
             Some e \<Rightarrow> Rejected e
           | None \<Rightarrow> unpackEnding env dir rest))"

lemma fst_gulp_dest [simp]: "fst (gulp_dest env dir entries w) = destFailure env dir entries"
  by (induction env dir entries w rule: gulp_dest.induct) (simp_all split: option.splits)

lemma unpackEach_Inr:
  "unpackEach env dir (Inr archive # rest) w =
     (case gunzip_untar env (contents archive) of
        Inl msg \<Rightarrow> (Uncaught (UnpackError msg), w)
      | Inr entries \<Rightarrow>
          (case destFailure env dir entries of
             Some e \<Rightarrow> (Rejected e, snd (gulp_dest env dir entries w))
           | None \<Rightarrow> unpackEach env dir rest (snd (gulp_dest env dir entries w))))"
proof (cases "gunzip_untar env (contents archive)")
  case (Inl msg)
  then show ?thesis by simp
next
  case (Inr entries)
  with fst_gulp_dest [of env dir entries w] show ?thesis
    by (cases "gulp_dest env dir entries w") (auto split: option.splits)
qed

lemmas unpackEach_simps = unpackEach.simps(1,2) unpackEach_Inr

declare unpackEach.simps(3) [simp del]

lemma fst_unpackEach [simp]: "fst (unpackEach env dir emitted w) = unpackEnding env dir emitted"
  by (induction env dir emitted arbitrary: w rule: unpackEnding.induct)
    (simp_all add: unpackEach_Inr split: sum.splits option.splits)

lemma gulp_dest_fields [simp]:
  "network (snd (gulp_dest env dir entries w)) = network w"
  "console (snd (gulp_dest env dir entries w)) = console w"
  "gets (snd (gulp_dest env dir entries w)) = gets w"
  "dirs (snd (gulp_dest env dir entries w)) = dirs w"
  by (induction env dir entries w rule: gulp_dest.induct) (simp_all split: option.splits)

lemma fs_gulp_dest_outside:
  "\<not> inside dir q \<Longrightarrow> fs (snd (gulp_dest env dir entries w)) q = fs w q"
proof (induction env dir entries w rule: gulp_dest.induct)
  case (1 env dir w)
  show ?case by simp
next
  case (2 env dir entry entries w)
  from "2.prems" have "q \<noteq> path_join dir (fst entry)"
    using inside_path_join [of dir "fst entry"] by auto
  with 2 show ?case by (simp split: option.splits)
qed

lemma unpackEach_fields [simp]:
  "network (snd (unpackEach env dir emitted w)) = network w"
  "console (snd (unpackEach env dir emitted w)) = console w"
  "gets (snd (unpackEach env dir emitted w)) = gets w"
  "dirs (snd (unpackEach env dir emitted w)) = dirs w"
  by (induction env dir emitted arbitrary: w rule: unpackEnding.induct)
    (simp_all add: unpackEach_Inr split: sum.splits option.splits)

lemma fs_unpackEach_outside:
  "\<not> inside dir q \<Longrightarrow> fs (snd (unpackEach env dir emitted w)) q = fs w q"
  by (induction env dir emitted arbitrary: w rule: unpackEnding.induct)
    (simp_all add: unpackEach_Inr fs_gulp_dest_outside split: sum.splits option.splits)

text \<open>The result of an installation as a function of what it met.\<close>

lemma installChromiumSysroot_result:
  "fst (installChromiumSysroot env arch d sysroot url stamp w) =
     (case mkdirFailure sysroot w of
        Some e \<Rightarrow> Inl e
      | None \<Rightarrow>
     (let met = https_get env url (decidingGet env url 0 w)
      in if \<not> ended met then Inl (DownloadFailed url)
         else if sha1 env (received met) \<noteq> Sha1Sum d
         then Inl (WrongSha (Sha1Sum d) (sha1 env (received met)))
         else if failed_status (exit_status (fst (tar_xf env (received met))))
         then Inl (ExtractionFailed (the (exit_status (fst (tar_xf env (received met))))))
         else Inr sysroot))"
  by (simp add: installChromiumSysroot_def Let_def case_prod_beta readFileSync_def getSha_digest
      mkdirSync_rmSync_recursive downloadLoop_spec [of 0, simplified] decidingGet_def
      split: option.splits)

lemma fetchSysrootDict_written:
  assumes "curl env (sysrootJSONUrl env) = (result, Some t)"
  shows "fetchSysrootDict env arch w
    = (fst (fetchSysrootDict env arch w), writeFileSync (sysrootDictLocation env) t w)"
    and "fst (fetchSysrootDict env arch w) = fst (fetchSysrootDict env arch w')"
  using assms by (simp_all add: fetchSysrootDict_def Let_def split: option.splits)

lemma stamp_not_location:
  "path_join (path_join (tmpdir env) dir) ''.stamp'' \<noteq> sysrootDictLocation env"
proof
  assume "path_join (path_join (tmpdir env) dir) ''.stamp'' = sysrootDictLocation env"
  then have "last (path_join (path_join (tmpdir env) dir) ''.stamp'')
      = last (sysrootDictLocation env)" by simp
  then show False by (simp add: path_join_def sysrootDictLocation_def)
qed

lemma getChromiumSysroot_leaves_stamp:
  assumes "fst (getChromiumSysroot env arch w) = Inr dir"
  obtains d where "fst (fetchSysrootDict env arch w) = Inr d"
    and "dir = path_join (tmpdir env) (SysrootDir d)"
    and "stamped (path_join dir ''.stamp'') (sysrootUrl d) (snd (getChromiumSysroot env arch w))"
  using assms
proof (rule getChromiumSysroot_cases)
  fix d w0
  assume d: "fetchSysrootDict env arch w = (Inr d, w0)"
    and dir: "dir = path_join (tmpdir env) (SysrootDir d)"
    and run: "stamped (path_join dir ''.stamp'') (sysrootUrl d) w0
           \<and> getChromiumSysroot env arch w = (Inr dir, w0)
         \<or> \<not> stamped (path_join dir ''.stamp'') (sysrootUrl d) w0
           \<and> getChromiumSysroot env arch w
               = installChromiumSysroot env (arch_name arch) d dir (sysrootUrl d)
                   (path_join dir ''.stamp'') w0"
  from run have "stamped (path_join dir ''.stamp'') (sysrootUrl d)
      (snd (getChromiumSysroot env arch w))"
  proof
    assume "stamped (path_join dir ''.stamp'') (sysrootUrl d) w0
      \<and> getChromiumSysroot env arch w = (Inr dir, w0)"
    then show ?thesis by simp
  next
    assume fresh: "\<not> stamped (path_join dir ''.stamp'') (sysrootUrl d) w0
      \<and> getChromiumSysroot env arch w
          = installChromiumSysroot env (arch_name arch) d dir (sysrootUrl d)
              (path_join dir ''.stamp'') w0"
    with assms have "fst (installChromiumSysroot env (arch_name arch) d dir (sysrootUrl d)
        (path_join dir ''.stamp'') w0) = Inr dir" by simp
    from installChromiumSysroot_ok [OF this] fresh show ?thesis
      by (simp add: stamped_def)
  qed
  with d dir that show ?thesis by simp
qed

subsection \<open>getVSCodeSysroot\<close>

text \<open>The file \<^verbatim>\<open>gulp.dest\<close> fails on is one of the archive, and the error is the one it met.\<close>

lemma destFailure_Some:
  "destFailure env dir entries = Some e \<Longrightarrow>
     \<exists>name msg. name \<in> fst ` set entries \<and> e = DestError (path_join dir name) msg \<and>
       dest_error env (path_join dir name) = Some msg"
  by (induction entries) (auto split: option.splits)

lemma requireAll_Some:
  "requireAll env names = Some e \<Longrightarrow>
     \<exists>name msg. name \<in> set names \<and> e = RequireError name msg \<and> require_error env name = Some msg"
  by (induction names) (auto split: option.splits)

lemma unpackEnding_Rejected:
  "unpackEnding env dir emitted = Rejected e \<Longrightarrow>
     \<exists>p msg. inside dir p \<and> e = DestError p msg \<and> dest_error env p = Some msg"
proof (induction env dir emitted rule: unpackEnding.induct)
  case (3 env dir archive rest)
  then show ?case
    by (auto split: sum.splits option.splits dest!: destFailure_Some)
qed simp_all

lemma unpackEnding_Uncaught:
  "unpackEnding env dir emitted = Uncaught e \<Longrightarrow>
     (\<exists>x. e = StreamError x \<and> Inl x \<in> set emitted) \<or> (\<exists>msg. e = UnpackError msg)"
  by (induction env dir emitted rule: unpackEnding.induct)
    (auto split: sum.splits option.splits)

text \<open>What the download of an installation emits, and what the unpacking makes of it.\<close>

definition sysrootDownload ::
    "sys_env \<Rightarrow> DebianArchString \<Rightarrow> string option \<Rightarrow> string \<Rightarrow> world \<Rightarrow> VinylFile fetch_result list" where
  "sysrootDownload env arch checksum sysroot w =
     fst (fetchGithub (fetching env) (sysrootRepository env) (sysrootAsset arch sysroot checksum)
            (network w))"

definition sysrootEnding ::
    "sys_env \<Rightarrow> DebianArchString \<Rightarrow> string option \<Rightarrow> string \<Rightarrow> world \<Rightarrow> unit settled" where
  "sysrootEnding env arch checksum sysroot w =
     unpackEnding env sysroot (sysrootDownload env arch checksum sysroot w)"

lemmas install_defs =
  installVSCodeSysroot_def sysrootEnding_def sysrootDownload_def Let_def case_prod_beta
  mkdirSync_rmSync_recursive

lemma installVSCodeSysroot_result:
  "fst (installVSCodeSysroot env arch checksum sysroot stamp w) =
     (case mkdirFailure sysroot w of
        Some e \<Rightarrow> Rejected e
      | None \<Rightarrow>
     (case requireAll env (sysrootModules env) of
        Some e \<Rightarrow> Rejected e
      | None \<Rightarrow>
     (case sysrootEnding env arch checksum sysroot w of
        Uncaught e \<Rightarrow> Uncaught e
      | Rejected e \<Rightarrow> Rejected e
      | Resolved u \<Rightarrow> Resolved (sysroot @ ''/'' @ triple arch @ ''/'' @ triple arch @ ''/sysroot''))))"
  by (simp add: install_defs split: option.splits settled.splits)

lemma installVSCodeSysroot_resolved:
  assumes "fst (installVSCodeSysroot env arch checksum sysroot stamp w) = Resolved p"
  shows "p = sysroot @ ''/'' @ triple arch @ ''/'' @ triple arch @ ''/sysroot''"
    and "fs (snd (installVSCodeSysroot env arch checksum sysroot stamp w)) stamp
      = Some (expectedName arch)"
  using assms by (auto simp: install_defs split: option.splits settled.splits)

lemma installVSCodeSysroot_outside:
  "\<not> inside sysroot q \<Longrightarrow> q \<noteq> stamp \<Longrightarrow>
     fs (snd (installVSCodeSysroot env arch checksum sysroot stamp w)) q = fs w q"
  by (simp add: install_defs fs_unpackEach_outside split: option.splits settled.splits)

text \<open>
  Before the first request an installation touches the directory only; the
  requests it makes are those of \<^verbatim>\<open>fetchGithub\<close>.
\<close>

definition sysrootRequests ::
    "sys_env \<Rightarrow> DebianArchString \<Rightarrow> string option \<Rightarrow> string \<Rightarrow> world \<Rightarrow> net" where
  "sysrootRequests env arch checksum sysroot w =
     snd (fetchGithub (fetching env) (sysrootRepository env) (sysrootAsset arch sysroot checksum)
            (network w))"

lemma installVSCodeSysroot_network:
  "network (snd (installVSCodeSysroot env arch checksum sysroot stamp w)) =
     (if mkdirFailure sysroot w = None \<and> requireAll env (sysrootModules env) = None
      then sysrootRequests env arch checksum sysroot w else network w)"
  by (simp add: install_defs sysrootRequests_def split: option.splits settled.splits)

lemma installVSCodeSysroot_early:
  assumes "mkdirFailure sysroot w \<noteq> None \<or> requireAll env (sysrootModules env) \<noteq> None"
  shows "fs (snd (installVSCodeSysroot env arch checksum sysroot stamp w))
    = fs (rmSync_recursive sysroot w)"
  using assms by (auto simp: install_defs fun_eq_iff split: option.splits)

text \<open>What \<^verbatim>\<open>getVSCodeSysroot\<close> prints, and what it resolves to.\<close>

lemma console_installVSCodeSysroot:
  "console (snd (installVSCodeSysroot env arch checksum sysroot stamp w))
     = console w @ [''Installing '' @ arch_name arch @ '' root image: '' @ sysroot]"
  by (simp add: install_defs split: option.splits settled.splits)

lemma console_getVSCodeSysroot:
  "console (snd (getVSCodeSysroot env arch w)) = console w \<or>
   console (snd (getVSCodeSysroot env arch w))
     = console w @ [''Installing '' @ arch_name arch @ '' root image: '' @ vscodeSysroot env arch]"
  by (simp add: getVSCodeSysroot_def Let_def console_installVSCodeSysroot split: option.splits)

lemma getVSCodeSysroot_resolved:
  assumes "fst (getVSCodeSysroot env arch w) = Resolved p"
  shows "p = vscodeSysroot env arch \<or>
    p = vscodeSysroot env arch @ ''/'' @ triple arch @ ''/'' @ triple arch @ ''/sysroot''"
  using assms
  by (auto simp: getVSCodeSysroot_def Let_def dest: installVSCodeSysroot_resolved(1)
      split: option.splits if_splits)

lemma getVSCodeSysroot_fresh:
  assumes "fs w (checksumsPath env) = Some t"
    and "truthy (getVSCodeSysrootChecksum t (expectedName arch))"
    and "\<not> stamped (path_join (vscodeSysroot env arch) ''.stamp'') (expectedName arch) w"
  shows "getVSCodeSysroot env arch w
    = installVSCodeSysroot env arch (getVSCodeSysrootChecksum t (expectedName arch))
        (vscodeSysroot env arch) (path_join (vscodeSysroot env arch) ''.stamp'') w"
  using assms by (simp add: getVSCodeSysroot_def Let_def)

text \<open>
  The cases of \<^verbatim>\<open>getVSCodeSysroot\<close>: it stops at the checksums, finds the stamp,
  or installs.
\<close>

lemma getVSCodeSysroot_cases:
  obtains "getVSCodeSysroot env arch w = (Rejected (NoSuchFile (checksumsPath env)), w)"
  | "getVSCodeSysroot env arch w = (Rejected (ChecksumNotFound (expectedName arch)), w)"
  | "getVSCodeSysroot env arch w = (Resolved (vscodeSysroot env arch), w)"
  | checksum where "getVSCodeSysroot env arch w
      = installVSCodeSysroot env arch checksum (vscodeSysroot env arch)
          (path_join (vscodeSysroot env arch) ''.stamp'') w"
proof -
  have "getVSCodeSysroot env arch w = (Rejected (NoSuchFile (checksumsPath env)), w) \<or>
    getVSCodeSysroot env arch w = (Rejected (ChecksumNotFound (expectedName arch)), w) \<or>
    getVSCodeSysroot env arch w = (Resolved (vscodeSysroot env arch), w) \<or>
    (\<exists>checksum. getVSCodeSysroot env arch w
      = installVSCodeSysroot env arch checksum (vscodeSysroot env arch)
          (path_join (vscodeSysroot env arch) ''.stamp'') w)"
    by (auto simp: getVSCodeSysroot_def Let_def split: option.splits)
  with that show thesis by blast
qed

lemma getVSCodeSysroot_installs:
  assumes "fs w (checksumsPath env) = Some t"
    and "getVSCodeSysrootChecksum t (expectedName arch) = Some c" and "c \<noteq> []"
    and "\<not> stamped (path_join (vscodeSysroot env arch) ''.stamp'') (expectedName arch) w"
    and "mkdirFailure (vscodeSysroot env arch) w = None"
    and "requireAll env (sysrootModules env) = None"
  shows "fst (getVSCodeSysroot env arch w) =
    (case sysrootEnding env arch (Some c) (vscodeSysroot env arch) w of
       Uncaught e \<Rightarrow> Uncaught e
     | Rejected e \<Rightarrow> Rejected e
     | Resolved u \<Rightarrow> Resolved (vscodeSysroot env arch @ ''/'' @ triple arch @ ''/'' @ triple arch
         @ ''/sysroot''))"
  using assms by (simp add: getVSCodeSysroot_def Let_def installVSCodeSysroot_result)

text \<open>The three ways an installation rejects.\<close>

lemma installVSCodeSysroot_rejected:
  assumes "fst (installVSCodeSysroot env arch checksum sysroot stamp w) = Rejected e"
  obtains "e = ENOENT sysroot" and "mkdirFailure sysroot w = Some e"
  | "mkdirFailure sysroot w = None" and "requireAll env (sysrootModules env) = Some e"
  | "mkdirFailure sysroot w = None" and "requireAll env (sysrootModules env) = None"
      and "sysrootEnding env arch checksum sysroot w = Rejected e"
  using assms unfolding installVSCodeSysroot_result
  by (auto simp: mkdirFailure_def split: option.splits settled.splits if_splits)

lemma getVSCodeSysroot_no_checksum:
  assumes "fs w (checksumsPath env) = Some t"
    and "getVSCodeSysrootChecksum t (expectedName arch) = None"
  shows "getVSCodeSysroot env arch w = (Rejected (ChecksumNotFound (expectedName arch)), w)"
  using assms by (simp add: getVSCodeSysroot_def Let_def)

section \<open>A machine to run the installers on\<close>

text \<open>
  A release with the archive of \<open>amd64\<close>, a server of Debian images whose first
  connection breaks, and a repository with its file of checksums.
\<close>

definition sysroot_net :: fetch_env where
  "sysroot_net =
     \<lparr>respond = (\<lambda>url k.
          if url = ''https://api.github.com/repos/owner/sysroots/releases/tags/v20231120-245067''
          then answer ''release''
          else if url = ''https://example.test/x86_64'' then answer ''archive''
          else Resolves \<lparr>ok = False, status = 404, arrayBuffer = Inr []\<rparr>),
      sha256 = (\<lambda>body. ''sha:'' @ body),
      dirname = (\<lambda>p. p),
      parse_assets = (\<lambda>body.
          Inr [\<lparr>asset_name = expectedName amd64, asset_url = ''https://example.test/x86_64''\<rparr>]),
      github_token = None,
      base64 = (\<lambda>t. t)\<rparr>"

definition debian_entry :: SysrootDictEntry where
  "debian_entry = \<lparr>Sha1Sum = ''sha1:deb'', SysrootDir = ''debian_bullseye_amd64-sysroot'',
     Tarball = ''debian.tar.xz''\<rparr>"

definition example_sys :: sys_env where
  "example_sys =
     \<lparr>fetching = sysroot_net, tmpdir = ''/tmp'', repo_root = ''/repo'',
      sysrootRepository = ''owner/sysroots'', electronVersion = ''27.1.3'',
      sha1 = (\<lambda>t. ''sha1:'' @ t),
      curl = (\<lambda>url. (\<lparr>exit_status = Some 0, stderr = []\<rparr>, Some ''json'')),
      sysroots = (\<lambda>t key. if t = ''json'' \<and> key = ''bullseye_amd64'' then Some debian_entry
                            else None),
      https_get = (\<lambda>url k. if k = 0 then Errored [''de''] ''ECONNRESET'' else Ended [''d'', ''eb'']),
      tar_xf = (\<lambda>t. (\<lparr>exit_status = Some 0, stderr = []\<rparr>, [(''usr/lib/libc.so'', ''elf'')])),
      gunzip_untar = (\<lambda>body. Inr [(''x86_64-vscode-linux-gnu/lib/libc.so'', ''elf'')]),
      require_error = (\<lambda>name. None),
      dest_error = (\<lambda>p. None)\<rparr>"

text \<open>The same machine with a disk that is full, and with a module that is not installed.\<close>

definition example_full :: sys_env where
  "example_full = example_sys\<lparr>dest_error := (\<lambda>p. Some ''ENOSPC'')\<rparr>"

definition example_bare :: sys_env where
  "example_bare =
     example_sys\<lparr>require_error := (\<lambda>name. if name = ''gulp-untar'' then Some ''MODULE_NOT_FOUND''
                                             else None)\<rparr>"

definition example_checksums :: "(string \<times> string) list" where
  "example_checksums =
     [(''sha:other'', expectedName arm64), (''sha:archive'', expectedName amd64)]"

definition example_world :: world where
  "example_world =
     \<lparr>fs = [''/repo/build/checksums/vscode-sysroot.txt'' \<mapsto> checksum_file example_checksums],
      dirs = {''/'', ''/tmp'', ''/repo'', ''/repo/build'', ''/repo/build/checksums''},
      console = [], error_lines = [], network = offline, gets = 0\<rparr>"

lemmas sysroot_example_defs = sysroot_net_def debian_entry_def example_sys_def
  example_checksums_def example_world_def

lemma example_mkdir [simp]:
  "mkdirFailure ''/tmp/debian_bullseye_amd64-sysroot'' example_world = None"
  "mkdirFailure ''/tmp/vscode-amd64-sysroot'' example_world = None"
  "mkdirFailure ''/tmp/vscode-arm64-sysroot'' example_world = None"
  by (simp_all add: mkdirFailure_def path_dirname_def inside_def example_world_def)

lemma example_checksums_wf: "list_all wf_entry example_checksums"
  by (simp add: example_checksums_def wf_entry_def is_space_def)

lemma example_checksums_file:
  "fs example_world (checksumsPath example_sys) = Some (checksum_file example_checksums)"
  by (simp add: checksumsPath_def example_sys_def example_world_def)

lemma example_checksum:
  "getVSCodeSysrootChecksum (checksum_file example_checksums) (expectedName amd64)
     = Some ''sha:archive''"
  "getVSCodeSysrootChecksum (checksum_file example_checksums) (expectedName arm64)
     = Some ''sha:other''"
  "getVSCodeSysrootChecksum (checksum_file example_checksums) (expectedName armhf) = None"
  unfolding getVSCodeSysrootChecksum_file [OF example_checksums_wf]
  by (simp_all add: example_checksums_def)

lemma example_vscodeSysroot:
  "vscodeSysroot example_sys arch = ''/tmp/vscode-'' @ arch_name arch @ ''-sysroot''"
  by (simp add: vscodeSysroot_def path_join_def example_sys_def)

lemma example_fresh:
  "\<not> stamped (path_join (vscodeSysroot example_sys arch) ''.stamp'') (expectedName arch)
      example_world"
  by (cases arch) (simp_all add: stamped_def example_world_def path_join_def example_vscodeSysroot)

lemma example_modules: "requireAll example_sys (sysrootModules example_sys) = None"
  by (simp add: sysrootModules_def example_sys_def)

text \<open>The installation for \<open>amd64\<close> on that machine.\<close>

lemma example_install:
  "fst (getVSCodeSysroot example_sys amd64 example_world)
     = Resolved ''/tmp/vscode-amd64-sysroot/x86_64-vscode-linux-gnu/x86_64-vscode-linux-gnu/sysroot''"
proof -
  let ?archive = "\<lparr>cwd = ''/'', base_dir = Present ''/tmp/vscode-amd64-sysroot'',
     file_path = ''/tmp/vscode-amd64-sysroot'', contents = ''archive''\<rparr>"
  have d: "sysrootDownload example_sys amd64 (Some ''sha:archive'')
      (vscodeSysroot example_sys amd64) example_world = [Inr ?archive]"
    by code_simp
  have uf: "unpackEnding example_sys (vscodeSysroot example_sys amd64) [Inr ?archive] = Resolved ()"
    by (simp add: example_sys_def)
  have m: "mkdirFailure (vscodeSysroot example_sys amd64) example_world = None"
    by (simp add: example_vscodeSysroot)
  have ne: "''sha:archive'' \<noteq> []" by simp
  show ?thesis
    by (simp only: getVSCodeSysroot_installs
          [OF example_checksums_file example_checksum(1) ne example_fresh m example_modules]
          sysrootEnding_def d uf)
      (simp add: example_vscodeSysroot)
qed

text \<open>The installations that are rejected: on the full disk, and without the module.\<close>

lemma example_download:
  "sysrootDownload example_sys amd64 (Some ''sha:archive'') ''/tmp/vscode-amd64-sysroot'' example_world
     = [Inr \<lparr>cwd = ''/'', base_dir = Present ''/tmp/vscode-amd64-sysroot'',
              file_path = ''/tmp/vscode-amd64-sysroot'', contents = ''archive''\<rparr>]"
  "map fst (requested (sysrootRequests example_sys amd64 (Some ''sha:archive'')
      ''/tmp/vscode-amd64-sysroot'' example_world))
     = [''https://api.github.com/repos/owner/sysroots/releases/tags/v20231120-245067'',
        ''https://example.test/x86_64'']"
  by code_simp+

lemma example_variants [simp]:
  "checksumsPath (env\<lparr>dest_error := d\<rparr>) = checksumsPath env"
  "checksumsPath (env\<lparr>require_error := r\<rparr>) = checksumsPath env"
  "vscodeSysroot (env\<lparr>dest_error := d\<rparr>) arch = vscodeSysroot env arch"
  "vscodeSysroot (env\<lparr>require_error := r\<rparr>) arch = vscodeSysroot env arch"
  "sysrootDownload (env\<lparr>dest_error := d\<rparr>) = sysrootDownload env"
  "sysrootRequests (env\<lparr>dest_error := d\<rparr>) = sysrootRequests env"
  by (simp_all add: checksumsPath_def vscodeSysroot_def sysrootDownload_def sysrootRequests_def
      fun_eq_iff)

lemma example_full_run:
  "fst (getVSCodeSysroot example_full amd64 example_world)
     = Rejected (DestError ''/tmp/vscode-amd64-sysroot/x86_64-vscode-linux-gnu/lib/libc.so'' ''ENOSPC'')"
  "map fst (requested (network (snd (getVSCodeSysroot example_full amd64 example_world))))
     = [''https://api.github.com/repos/owner/sysroots/releases/tags/v20231120-245067'',
        ''https://example.test/x86_64'']"
proof -
  have m: "mkdirFailure (vscodeSysroot example_full amd64) example_world = None"
    and r: "requireAll example_full (sysrootModules example_full) = None"
    by (simp_all add: example_full_def example_vscodeSysroot sysrootModules_def)
      (simp add: example_sys_def)
  have f: "fs example_world (checksumsPath example_full) = Some (checksum_file example_checksums)"
    and s: "\<not> stamped (path_join (vscodeSysroot example_full amd64) ''.stamp'') (expectedName amd64)
      example_world"
    using example_fresh [of amd64] by (simp_all add: example_full_def example_checksums_file)
  have ne: "''sha:archive'' \<noteq> []" by simp
  note run = getVSCodeSysroot_installs [OF f example_checksum(1) ne s m r]
  show "fst (getVSCodeSysroot example_full amd64 example_world)
     = Rejected (DestError ''/tmp/vscode-amd64-sysroot/x86_64-vscode-linux-gnu/lib/libc.so'' ''ENOSPC'')"
    unfolding run sysrootEnding_def
    by (simp add: example_full_def example_vscodeSysroot example_download)
      (simp add: example_sys_def path_join_def)
  have "getVSCodeSysroot example_full amd64 example_world
      = installVSCodeSysroot example_full amd64 (Some ''sha:archive'')
          (vscodeSysroot example_full amd64)
          (path_join (vscodeSysroot example_full amd64) ''.stamp'') example_world"
    using getVSCodeSysroot_fresh [OF f _ s] unfolding example_checksum by simp
  then show "map fst (requested (network (snd (getVSCodeSysroot example_full amd64 example_world))))
     = [''https://api.github.com/repos/owner/sysroots/releases/tags/v20231120-245067'',
        ''https://example.test/x86_64'']"
    using m r by (simp add: installVSCodeSysroot_network)
      (simp add: example_full_def example_vscodeSysroot example_download)
qed

lemma example_bare_run:
  "fst (getVSCodeSysroot example_bare amd64 example_world)
     = Rejected (RequireError ''gulp-untar'' ''MODULE_NOT_FOUND'')"
  "network (snd (getVSCodeSysroot example_bare amd64 example_world)) = offline"
proof -
  have m: "mkdirFailure (vscodeSysroot example_bare amd64) example_world = None"
    and r: "requireAll example_bare (sysrootModules example_bare)
      = Some (RequireError ''gulp-untar'' ''MODULE_NOT_FOUND'')"
    by (simp_all add: example_bare_def example_vscodeSysroot sysrootModules_def)
  have f: "fs example_world (checksumsPath example_bare) = Some (checksum_file example_checksums)"
    and s: "\<not> stamped (path_join (vscodeSysroot example_bare amd64) ''.stamp'') (expectedName amd64)
      example_world"
    using example_fresh [of amd64] by (simp_all add: example_bare_def example_checksums_file)
  have "getVSCodeSysroot example_bare amd64 example_world
      = installVSCodeSysroot example_bare amd64 (Some ''sha:archive'')
          (vscodeSysroot example_bare amd64)
          (path_join (vscodeSysroot example_bare amd64) ''.stamp'') example_world"
    using getVSCodeSysroot_fresh [OF f _ s] unfolding example_checksum by simp
  with m r show "fst (getVSCodeSysroot example_bare amd64 example_world)
      = Rejected (RequireError ''gulp-untar'' ''MODULE_NOT_FOUND'')"
    and "network (snd (getVSCodeSysroot example_bare amd64 example_world)) = offline"
    by (simp_all add: installVSCodeSysroot_result installVSCodeSysroot_network)
      (simp add: example_world_def)
qed

text \<open>The last read leaves the end of the block before it in the buffer.\<close>

lemma hashBlocks_example:
  "readSync ''abcdef'' ''abcd'' 4 = (2, ''efcd'') \<and>
   hashBlocks ''abcdef'' (Buffer_alloc 4) 0 [] = ''abcdef'' \<and>
   hashBlocks ''abcdefgh'' (Buffer_alloc 4) 0 [] = ''abcdefgh''"
  by (simp add: hashBlocks.simps readSync_def Buffer_alloc_def numeral_eq_Suc)

section \<open>Properties\<close>

text \<open>
  Property C12 (equivalence). \<^verbatim>\<open>getSha\<close>, which reads the file in blocks of one
  megabyte and feeds them to the hash one by one, returns the digest of the
  whole file, whatever its length.
\<close>

theorem getSha_whole_file: "getSha digest f = digest f"
  by (rule getSha_digest)

text \<open>
  Property C36 (functional). On a file of lines \<^verbatim>\<open>checksum  name\<close>,
  \<^verbatim>\<open>getVSCodeSysrootChecksum\<close> returns the checksum of the first line with the
  expected name, and \<^verbatim>\<open>undefined\<close> when there is none.
\<close>

theorem getVSCodeSysrootChecksum_lookup:
  assumes "list_all wf_entry entries"
  shows "getVSCodeSysrootChecksum (checksum_file entries) name
    = map_of (map (\<lambda>e. (snd e, fst e)) entries) name"
  using assms by (rule getVSCodeSysrootChecksum_file)

theorem getVSCodeSysrootChecksum_lookup_witness:
  "list_all wf_entry example_checksums \<and>
   getVSCodeSysrootChecksum (checksum_file example_checksums) (expectedName amd64)
     = Some ''sha:archive'' \<and>
   getVSCodeSysrootChecksum (checksum_file example_checksums) (expectedName armhf) = None"
proof -
  have h: "list_all wf_entry example_checksums" by code_simp
  have "map_of (map (\<lambda>e. (snd e, fst e)) example_checksums) (expectedName amd64)
      = Some ''sha:archive''"
    and "map_of (map (\<lambda>e. (snd e, fst e)) example_checksums) (expectedName armhf) = None"
    by (simp_all add: example_checksums_def)
  with getVSCodeSysrootChecksum_lookup [OF h] h show ?thesis by simp
qed

text \<open>
  Property C34 (termination). The download loop of \<^verbatim>\<open>getChromiumSysroot\<close> makes
  at least one and at most three requests, and reports success exactly when
  one of the three it could make ends.
\<close>

theorem downloadLoop_three_attempts:
  "gets w < gets (snd (downloadLoop env url tarball 0 False w)) \<and>
   gets (snd (downloadLoop env url tarball 0 False w)) \<le> gets w + 3 \<and>
   (fst (downloadLoop env url tarball 0 False w)
     \<longleftrightarrow> (\<exists>k. k < 3 \<and> ended (https_get env url (gets w + k))))"
proof -
  have "ended (https_get env url (decidingGet env url 0 w))
      \<longleftrightarrow> (\<exists>k\<le>2. ended (https_get env url (gets w + k)))"
    unfolding decidingGet_def by (simp add: first_ok_iff [of "\<lambda>k. ended (https_get env url k)"])
  moreover have "(\<exists>k\<le>2. ended (https_get env url (gets w + k)))
      \<longleftrightarrow> (\<exists>k. k < 3 \<and> ended (https_get env url (gets w + (k::nat))))"
    by (auto simp: less_Suc_eq_le numeral_3_eq_3 numeral_2_eq_2)
  ultimately show ?thesis
    using decidingGet_bounds [where w = w and env = env and url = url]
    by (simp add: downloadLoop_spec [of 0, simplified])
qed

text \<open>
  Property C11 (safety). When \<^verbatim>\<open>getChromiumSysroot\<close> installs, that is, returns
  a directory that had no stamp for the archive, one of at most three
  requests for the archive has ended, what it received has the SHA-1 of the
  dictionary, and only then is the stamp written.
\<close>

theorem getChromiumSysroot_verified:
  assumes "fetchSysrootDict env arch w = (Inr d, w0)"
    and "\<not> stamped (path_join (path_join (tmpdir env) (SysrootDir d)) ''.stamp'') (sysrootUrl d) w0"
    and "fst (getChromiumSysroot env arch w) = Inr dir"
  shows "\<exists>k. gets w \<le> k \<and> k < gets w + 3 \<and> ended (https_get env (sysrootUrl d) k) \<and>
    sha1 env (received (https_get env (sysrootUrl d) k)) = Sha1Sum d \<and>
    gets (snd (getChromiumSysroot env arch w)) = Suc k \<and>
    stamped (path_join dir ''.stamp'') (sysrootUrl d) (snd (getChromiumSysroot env arch w))"
proof -
  let ?dir = "path_join (tmpdir env) (SysrootDir d)"
  let ?install = "installChromiumSysroot env (arch_name arch) d ?dir (sysrootUrl d)
    (path_join ?dir ''.stamp'') w0"
  from assms(1,2) have run: "getChromiumSysroot env arch w = ?install"
    by (simp add: getChromiumSysroot_def Let_def)
  from assms(1) have w0: "gets w0 = gets w"
    using gets_fetchSysrootDict [of env arch w] by simp
  from assms(3) have ok: "fst ?install = Inr dir" by (simp add: run)
  note facts = installChromiumSysroot_ok [OF ok]
  from decidingGet_bounds [where w = w0 and env = env and url = "sysrootUrl d"] w0
  have "gets w \<le> decidingGet env (sysrootUrl d) 0 w0"
    and "decidingGet env (sysrootUrl d) 0 w0 < gets w + 3" by simp_all
  with facts show ?thesis
    unfolding run stamped_def by blast
qed

theorem getChromiumSysroot_verified_witness:
  "fst (fetchSysrootDict example_sys amd64 example_world) = Inr debian_entry \<and>
   fs example_world ''/tmp/debian_bullseye_amd64-sysroot/.stamp'' = None \<and>
   fst (getChromiumSysroot example_sys amd64 example_world)
     = Inr ''/tmp/debian_bullseye_amd64-sysroot'' \<and>
   gets (snd (getChromiumSysroot example_sys amd64 example_world)) \<le> 3 \<and>
   fs (snd (getChromiumSysroot example_sys amd64 example_world))
      ''/tmp/debian_bullseye_amd64-sysroot/.stamp''
     = Some ''https://msftelectron.blob.core.windows.net/sysroots/toolchain/sha1:deb/debian.tar.xz''"
proof -
  let ?run = "getChromiumSysroot example_sys amd64 example_world"
  let ?w0 = "writeFileSync (sysrootDictLocation example_sys) ''json'' example_world"
  let ?stamp = "''/tmp/debian_bullseye_amd64-sysroot/.stamp''"
  have h1: "fetchSysrootDict example_sys amd64 example_world = (Inr debian_entry, ?w0)"
    by (simp add: fetchSysrootDict_def sysrootArch_def example_sys_def)
  have dir: "path_join (tmpdir example_sys) (SysrootDir debian_entry)
      = ''/tmp/debian_bullseye_amd64-sysroot''"
    and stamp: "path_join ''/tmp/debian_bullseye_amd64-sysroot'' ''.stamp'' = ?stamp"
    and url: "sysrootUrl debian_entry
      = ''https://msftelectron.blob.core.windows.net/sysroots/toolchain/sha1:deb/debian.tar.xz''"
    by (simp_all add: path_join_def example_sys_def debian_entry_def sysrootUrl_def
        URL_PREFIX_def URL_PATH_def)
  have none: "fs example_world ?stamp = None" by (simp add: example_world_def)
  have loc: "sysrootDictLocation example_sys = ''/tmp/sysroots.json''"
    by (simp add: sysrootDictLocation_def example_sys_def)
  from none have h2: "\<not> stamped (path_join (path_join (tmpdir example_sys)
      (SysrootDir debian_entry)) ''.stamp'') (sysrootUrl debian_entry) ?w0"
    by (simp add: dir stamp loc stamped_def)
  have k: "decidingGet example_sys (sysrootUrl debian_entry) 0 ?w0 = 1"
    by (simp add: decidingGet_def numeral_2_eq_2 example_sys_def example_world_def)
  have h3: "fst ?run = Inr ''/tmp/debian_bullseye_amd64-sysroot''"
    using h2
    by (simp add: getChromiumSysroot_def h1 Let_def installChromiumSysroot_result k dir
        example_mkdir)
      (simp add: example_sys_def debian_entry_def)
  from getChromiumSysroot_verified [OF h1 h2 h3] obtain k where
    "k < gets example_world + 3" and "gets (snd ?run) = Suc k"
    and "stamped (path_join ''/tmp/debian_bullseye_amd64-sysroot'' ''.stamp'')
      (sysrootUrl debian_entry) (snd ?run)" by blast
  then have "gets (snd ?run) \<le> 3" and "fs (snd ?run) ?stamp = Some (sysrootUrl debian_entry)"
    by (simp_all add: stamped_def stamp example_world_def)
  with h1 none h3 show ?thesis by (simp add: url)
qed

text \<open>
  Property C37 (equivalence). A second call of \<^verbatim>\<open>getChromiumSysroot\<close> after a
  successful one returns the same directory and makes no request for the
  archive: the stamp the first call left is found.
\<close>

theorem getChromiumSysroot_idempotent:
  assumes "fst (getChromiumSysroot env arch w) = Inr dir"
    and "curl env (sysrootJSONUrl env) = (result, Some t)"
  shows "fst (getChromiumSysroot env arch (snd (getChromiumSysroot env arch w))) = Inr dir \<and>
    gets (snd (getChromiumSysroot env arch (snd (getChromiumSysroot env arch w))))
      = gets (snd (getChromiumSysroot env arch w))"
  using assms(1)
proof (rule getChromiumSysroot_leaves_stamp)
  fix d
  let ?w1 = "snd (getChromiumSysroot env arch w)"
  let ?w2 = "writeFileSync (sysrootDictLocation env) t ?w1"
  assume d: "fst (fetchSysrootDict env arch w) = Inr d"
    and dir: "dir = path_join (tmpdir env) (SysrootDir d)"
    and st: "stamped (path_join dir ''.stamp'') (sysrootUrl d) ?w1"
  from d fetchSysrootDict_written(1) [OF assms(2), of arch ?w1]
    fetchSysrootDict_written(2) [OF assms(2), of arch ?w1 w]
  have again: "fetchSysrootDict env arch ?w1 = (Inr d, ?w2)" by simp
  from st have "stamped (path_join dir ''.stamp'') (sysrootUrl d) ?w2"
    using stamp_not_location [of env "SysrootDir d"] by (simp add: stamped_def dir)
  with again dir show ?thesis
    by (simp add: getChromiumSysroot_def [of env arch ?w1] Let_def)
qed

theorem getChromiumSysroot_idempotent_witness:
  "fst (getChromiumSysroot example_sys amd64 example_world)
     = Inr ''/tmp/debian_bullseye_amd64-sysroot'' \<and>
   curl example_sys (sysrootJSONUrl example_sys) = (\<lparr>exit_status = Some 0, stderr = []\<rparr>, Some ''json'') \<and>
   fst (getChromiumSysroot example_sys amd64
          (snd (getChromiumSysroot example_sys amd64 example_world)))
     = Inr ''/tmp/debian_bullseye_amd64-sysroot''"
proof -
  let ?run = "getChromiumSysroot example_sys amd64 example_world"
  let ?w0 = "writeFileSync (sysrootDictLocation example_sys) ''json'' example_world"
  have h1: "fetchSysrootDict example_sys amd64 example_world = (Inr debian_entry, ?w0)"
    by (simp add: fetchSysrootDict_def sysrootArch_def example_sys_def)
  have k: "decidingGet example_sys (sysrootUrl debian_entry) 0 ?w0 = 1"
    by (simp add: decidingGet_def numeral_2_eq_2 example_sys_def example_world_def)
  have "\<not> stamped (path_join (path_join (tmpdir example_sys) (SysrootDir debian_entry))
      ''.stamp'') (sysrootUrl debian_entry) ?w0"
    by (simp add: stamped_def path_join_def sysrootDictLocation_def example_sys_def
        example_world_def debian_entry_def)
  moreover have "path_join (tmpdir example_sys) (SysrootDir debian_entry)
      = ''/tmp/debian_bullseye_amd64-sysroot''"
    by (simp add: path_join_def example_sys_def debian_entry_def)
  ultimately have h: "fst ?run = Inr ''/tmp/debian_bullseye_amd64-sysroot''"
    by (simp add: getChromiumSysroot_def h1 Let_def installChromiumSysroot_result k example_mkdir)
      (simp add: example_sys_def debian_entry_def)
  have c: "curl example_sys (sysrootJSONUrl example_sys)
      = (\<lparr>exit_status = Some 0, stderr = []\<rparr>, Some ''json'')"
    by (simp add: example_sys_def)
  from getChromiumSysroot_idempotent [OF h c] h c show ?thesis by simp
qed

text \<open>
  Property C25 (error). The rejections of \<^verbatim>\<open>getVSCodeSysroot\<close>. A promise that
  is rejected was rejected in one of three places. At the checksums, when the
  file is not there or has no checksum for the archive: nothing was touched.
  In the executor before any request, when the directory cannot be made or a
  module cannot be loaded: what was in the directory is removed and the
  network is as it was. Or by the handler of line 235, with the error of a
  file below the sysroot that \<^verbatim>\<open>gulp.dest\<close> could not write, after the
  requests of \<^verbatim>\<open>fetchGithub\<close>. The promise is never rejected with an error of the
  download or of the unpacking: those are events of streams in the middle of
  the pipe, and the handler is on its last stream.
\<close>

theorem getVSCodeSysroot_rejections:
  assumes "fst (getVSCodeSysroot env arch w) = Rejected e"
  shows
    "(e = NoSuchFile (checksumsPath env) \<or> e = ChecksumNotFound (expectedName arch)) \<and>
       snd (getVSCodeSysroot env arch w) = w \<or>
     (e = ENOENT (vscodeSysroot env arch) \<or>
      (\<exists>name msg. name \<in> set (sysrootModules env) \<and> e = RequireError name msg \<and>
         require_error env name = Some msg)) \<and>
       network (snd (getVSCodeSysroot env arch w)) = network w \<and>
       fs (snd (getVSCodeSysroot env arch w)) = fs (rmSync_recursive (vscodeSysroot env arch) w) \<or>
     (\<exists>p msg. inside (vscodeSysroot env arch) p \<and> e = DestError p msg \<and>
         dest_error env p = Some msg) \<and>
       (\<exists>checksum. network (snd (getVSCodeSysroot env arch w))
          = sysrootRequests env arch checksum (vscodeSysroot env arch) w)"
proof (cases rule: getVSCodeSysroot_cases [of env arch w])
  case (4 checksum)
  let ?dir = "vscodeSysroot env arch"
  from assms have "fst (installVSCodeSysroot env arch checksum ?dir (path_join ?dir ''.stamp'') w)
      = Rejected e"
    unfolding 4 .
  then show ?thesis
  proof (cases rule: installVSCodeSysroot_rejected)
    case 1
    then show ?thesis
      unfolding 4 by (simp add: installVSCodeSysroot_network installVSCodeSysroot_early)
  next
    case 2
    with requireAll_Some [OF 2(2)] show ?thesis
      unfolding 4 by (auto simp: installVSCodeSysroot_network installVSCodeSysroot_early)
  next
    case 3
    with unpackEnding_Rejected [OF 3(3) [unfolded sysrootEnding_def]] show ?thesis
      unfolding 4 by (auto simp: installVSCodeSysroot_network)
  qed
qed (use assms in simp_all)

theorem getVSCodeSysroot_rejections_witness:
  "fst (getVSCodeSysroot example_full amd64 example_world)
     = Rejected (DestError ''/tmp/vscode-amd64-sysroot/x86_64-vscode-linux-gnu/lib/libc.so'' ''ENOSPC'') \<and>
   map fst (requested (network (snd (getVSCodeSysroot example_full amd64 example_world))))
     = [''https://api.github.com/repos/owner/sysroots/releases/tags/v20231120-245067'',
        ''https://example.test/x86_64''] \<and>
   fst (getVSCodeSysroot example_bare amd64 example_world)
     = Rejected (RequireError ''gulp-untar'' ''MODULE_NOT_FOUND'') \<and>
   network (snd (getVSCodeSysroot example_bare amd64 example_world)) = offline"
  using getVSCodeSysroot_rejections [OF example_full_run(1)] example_full_run example_bare_run
  by simp

text \<open>
  Property C22 (functional). A call of \<^verbatim>\<open>getVSCodeSysroot\<close> that installs resolves
  to the directory \<^verbatim>\<open>sysroot\<close> of the toolchain inside what it unpacked, and
  the next call, which finds the stamp, resolves to the directory it
  unpacked into: the two calls name different directories.
\<close>

theorem getVSCodeSysroot_second_call:
  assumes "fst (getVSCodeSysroot env arch w) = Resolved p"
    and "\<not> stamped (path_join (vscodeSysroot env arch) ''.stamp'') (expectedName arch) w"
    and "\<not> inside (vscodeSysroot env arch) (checksumsPath env)"
  shows "p = vscodeSysroot env arch @ ''/'' @ triple arch @ ''/'' @ triple arch @ ''/sysroot'' \<and>
    fst (getVSCodeSysroot env arch (snd (getVSCodeSysroot env arch w)))
      = Resolved (vscodeSysroot env arch)"
proof -
  let ?dir = "vscodeSysroot env arch"
  let ?stamp = "path_join ?dir ''.stamp''"
  from assms(1) obtain t where t: "fs w (checksumsPath env) = Some t"
    and c: "truthy (getVSCodeSysrootChecksum t (expectedName arch))"
    by (auto simp: getVSCodeSysroot_def Let_def split: option.splits if_splits)
  let ?install = "installVSCodeSysroot env arch (getVSCodeSysrootChecksum t (expectedName arch))
     ?dir ?stamp w"
  from t c assms(2) have run: "getVSCodeSysroot env arch w = ?install"
    by (simp add: getVSCodeSysroot_def Let_def)
  with assms(1) have ok: "fst ?install = Resolved p" by simp
  from assms(3) have "checksumsPath env \<noteq> ?stamp"
    using inside_path_join [of ?dir "''.stamp''"] by auto
  with assms(3) t have "fs (snd ?install) (checksumsPath env) = Some t"
    by (simp add: installVSCodeSysroot_outside)
  moreover from ok have "stamped ?stamp (expectedName arch) (snd ?install)"
    by (simp add: stamped_def installVSCodeSysroot_resolved(2))
  ultimately have "fst (getVSCodeSysroot env arch (snd ?install)) = Resolved ?dir"
    using c by (simp add: getVSCodeSysroot_def Let_def)
  with installVSCodeSysroot_resolved(1) [OF ok] show ?thesis by (simp add: run)
qed

theorem getVSCodeSysroot_second_call_witness:
  "fst (getVSCodeSysroot example_sys amd64 example_world)
     = Resolved ''/tmp/vscode-amd64-sysroot/x86_64-vscode-linux-gnu/x86_64-vscode-linux-gnu/sysroot'' \<and>
   fs example_world ''/tmp/vscode-amd64-sysroot/.stamp'' = None \<and>
   fst (getVSCodeSysroot example_sys amd64 (snd (getVSCodeSysroot example_sys amd64 example_world)))
     = Resolved ''/tmp/vscode-amd64-sysroot''"
proof -
  have none: "fs example_world ''/tmp/vscode-amd64-sysroot/.stamp'' = None"
    by (simp add: example_world_def)
  have p: "checksumsPath example_sys = ''/repo/build/checksums/vscode-sysroot.txt''"
    by (simp add: checksumsPath_def example_sys_def)
  have h3: "\<not> inside (vscodeSysroot example_sys amd64) (checksumsPath example_sys)"
    by (simp add: inside_def example_vscodeSysroot p)
  from getVSCodeSysroot_second_call [OF example_install example_fresh h3] example_install none
  show ?thesis by (simp add: example_vscodeSysroot)
qed

end
