(* ===== verification/Coverage_Bars.thy ===== *)
theory Coverage_Bars
  imports File_Coverage
begin

text \<open>
  The coverage bars of \<^verbatim>\<open>testCoverageBars.ts\<close> (\<^verbatim>\<open>src/unnamed/part_000\<close>, lines
  1--188): the numbers and strings the widget shows (\<^verbatim>\<open>percent\<close>,
  \<^verbatim>\<open>calculateDisplayedStat\<close>, \<^verbatim>\<open>displayPercent\<close>, \<^verbatim>\<open>renderBar\<close>, the hover
  texts) and the widget itself, class \<^verbatim>\<open>AbstractTestCoverageBars\<close>, as a record
  of its fields with one function for each of its handlers.

  Numbers are rationals. The DOM is what the widget writes to it: an element
  is the record of the style properties and the text the code sets. The
  services are inputs: the configured metric is an argument of \<open>render\<close>,
  \<^verbatim>\<open>localize\<close> an argument of the texts, and whether \<^verbatim>\<open>showHover\<close> returned a
  hover an argument of the mouse handler.
\<close>

section \<open>Numbers as strings\<close>

text \<open>
  \<^verbatim>\<open>Number.prototype.toFixed\<close>, for a number below $10^{21}$: the integer \<open>n\<close>
  nearest to \<open>x \<cdot> 10\<^sup>f\<close>, the larger one of two, printed with at least \<open>f + 1\<close>
  digits and a point before the last \<open>f\<close>.
\<close>

definition digit :: "nat \<Rightarrow> char" where
  "digit d = ''0123456789'' ! d"

fun digits :: "nat \<Rightarrow> string" where
  "digits n = (if n < 10 then [digit n] else digits (n div 10) @ [digit (n mod 10)])"

declare digits.simps [simp del]

definition toFixed :: "nat \<Rightarrow> rat \<Rightarrow> string" where
  "toFixed f x =
     (let n = nat \<lfloor>\<bar>x\<bar> * 10 ^ f + 1 / 2\<rfloor>;
          m = digits n;
          m = replicate (f + 1 - length m) CHR ''0'' @ m;
          s = (if f = 0 then m else take (length m - f) m @ ''.'' @ drop (length m - f) m)
      in if x < 0 then ''-'' @ s else s)"

section \<open>The displayed numbers\<close>

datatype color = chartsGreen | chartsYellow | chartsRed

text \<open>The thresholds, \<open>None\<close> for \<^verbatim>\<open>-Infinity\<close>, and the test \<^verbatim>\<open>pct >= t.threshold\<close>.\<close>

definition colorThresholds :: "(color \<times> rat option) list" where
  "colorThresholds =
     [(chartsGreen, Some (9 / 10)), (chartsYellow, Some (8 / 10)), (chartsRed, None)]"

fun reaches :: "rat \<Rightarrow> color \<times> rat option \<Rightarrow> bool" where
  "reaches pct (c, None) = True"
| "reaches pct (c, Some threshold) = (threshold \<le> pct)"

definition percent :: "ICoveredCount \<Rightarrow> rat" where
  "percent cc = (if total cc = 0 then 1 else of_int (covered cc) / of_int (total cc))"

definition precision :: nat where
  "precision = 2"

definition epsilon :: rat where
  "epsilon = 10 / 10 ^ 8"

text \<open>What a thrown exception is: a read of a property of \<^verbatim>\<open>undefined\<close>, or \<^verbatim>\<open>assertNever\<close>.\<close>

datatype js_error = TypeError | Unreachable

text \<open>An element with the style properties that \<^verbatim>\<open>renderBar\<close> sets.\<close>

record bar =
  display :: string
  width :: "rat option"
  bar_color :: "color option"

definition renderBar :: "bar \<Rightarrow> rat option \<Rightarrow> js_error + bar" where
  "renderBar bar pct =
     (case pct of
        None \<Rightarrow> Inr (bar\<lparr>display := ''none''\<rparr>)
      | Some pct \<Rightarrow>
          (case find (reaches pct) colorThresholds of
             None \<Rightarrow> Inl TypeError
           | Some t \<Rightarrow>
               Inr (bar\<lparr>display := ''block'', width := Some (pct * 100),
                     bar_color := Some (fst t)\<rparr>)))"

text \<open>
  The configured metric. The setting is read from the configuration as it
  is, so a value outside the enumeration can reach the \<^verbatim>\<open>switch\<close>.
\<close>

datatype TestingDisplayedCoveragePercent = TotalCoverage | Statement | Minimum | Unrecognized string

definition calculateDisplayedStat ::
    "AbstractFileCoverage \<Rightarrow> TestingDisplayedCoveragePercent \<Rightarrow> js_error + rat" where
  "calculateDisplayedStat coverage metric =
     (case metric of
        Statement \<Rightarrow> Inr (percent (statement coverage))
      | Minimum \<Rightarrow>
          (let value = percent (statement coverage);
               value = (case branch coverage of None \<Rightarrow> value | Some b \<Rightarrow> min value (percent b));
               value = (case function' coverage of None \<Rightarrow> value | Some f \<Rightarrow> min value (percent f))
           in Inr value)
      | TotalCoverage \<Rightarrow> Inr (tpc coverage)
      | Unrecognized other \<Rightarrow> Inl Unreachable)"

definition displayPercent :: "rat \<Rightarrow> string" where
  "displayPercent value =
     (let display = toFixed precision (value * 100)
      in if value < 1 - epsilon \<and> display = ''100'' then ''99.99%'' else display @ ''%'')"

section \<open>Hover texts\<close>

text \<open>\<^verbatim>\<open>localize(key, message, arg)\<close> is a parameter.\<close>

type_synonym localize = "string \<Rightarrow> string \<Rightarrow> string \<Rightarrow> string"

definition stmtCoverageText :: "localize \<Rightarrow> AbstractFileCoverage \<Rightarrow> string" where
  "stmtCoverageText loc coverage =
     loc ''statementCoverage'' ''{} statement coverage''
       (displayPercent (percent (statement coverage)))"

definition fnCoverageText :: "localize \<Rightarrow> AbstractFileCoverage \<Rightarrow> string option" where
  "fnCoverageText loc coverage =
     (case function' coverage of
        None \<Rightarrow> None
      | Some f \<Rightarrow>
          Some (loc ''functionCoverage'' ''{} function coverage'' (displayPercent (percent f))))"

definition branchCoverageText :: "localize \<Rightarrow> AbstractFileCoverage \<Rightarrow> string option" where
  "branchCoverageText loc coverage =
     (case branch coverage of
        None \<Rightarrow> None
      | Some b \<Rightarrow>
          Some (loc ''branchCoverage'' ''{} branch coverage'' (displayPercent (percent b))))"

text \<open>\<^verbatim>\<open>join\<close> with a separator of several characters.\<close>

fun join_str :: "string \<Rightarrow> string list \<Rightarrow> string" where
  "join_str sep [] = []"
| "join_str sep [x] = x"
| "join_str sep (x # y # ys) = x @ sep @ join_str sep (y # ys)"

definition getOverallHoverText :: "localize \<Rightarrow> AbstractFileCoverage \<Rightarrow> string" where
  "getOverallHoverText loc coverage =
     join_str [CHR 0x0A, CHR 0x0A]
       (present [Some (stmtCoverageText loc coverage), fnCoverageText loc coverage,
                 branchCoverageText loc coverage])"

section \<open>The widget\<close>

text \<open>
  The elements that the lazy field \<^verbatim>\<open>el\<close> creates, in compact mode and
  otherwise, and the text function that \<^verbatim>\<open>attachHover\<close> gives each bar.
\<close>

datatype elements =
    Compact (overall: string) (tpcBar: bar)
  | Full (overall: string) (statement_bar: bar) (method_bar: bar) (branch_bar: bar)

datatype target = TpcBar | StatementBar | MethodBar | BranchBar

datatype content = Text string | Markdown string

definition new_bar :: bar where
  "new_bar = \<lparr>display = '''', width = None, bar_color = None\<rparr>"

definition new_elements :: "bool \<Rightarrow> elements" where
  "new_elements compact_mode =
     (if compact_mode then Compact '''' new_bar else Full '''' new_bar new_bar new_bar)"

fun attached_factory ::
    "localize \<Rightarrow> bool \<Rightarrow> target \<Rightarrow> (AbstractFileCoverage \<Rightarrow> content option) option" where
  "attached_factory loc True TpcBar = Some (\<lambda>c. Some (Markdown (getOverallHoverText loc c)))"
| "attached_factory loc False StatementBar = Some (\<lambda>c. Some (Text (stmtCoverageText loc c)))"
| "attached_factory loc False MethodBar = Some (\<lambda>c. map_option Text (fnCoverageText loc c))"
| "attached_factory loc False BranchBar = Some (\<lambda>c. map_option Text (branchCoverageText loc c))"
| "attached_factory loc compact_mode other = None"

text \<open>
  What the store of disposables holds: a listener for changes of the
  configuration with the coverage its \<^verbatim>\<open>render\<close> has captured, the removal of
  the root element from the container, a hover.
\<close>

datatype disposable =
    ConfigurationListener "AbstractFileCoverage option"
  | RemoveRoot
  | Hover content

record bars =
  coverage' :: "AbstractFileCoverage option"
  el :: "elements option"
  visibleStore :: "disposable list"
  fired :: nat
  appended :: bool

definition new_bars :: bars where
  "new_bars = \<lparr>coverage' = None, el = None, visibleStore = [], fired = 0, appended = False\<rparr>"

text \<open>\<^verbatim>\<open>this.el.value\<close>: the elements are created when they are first read.\<close>

definition el_value :: "bool \<Rightarrow> bars \<Rightarrow> elements" where
  "el_value compact_mode s = (case el s of None \<Rightarrow> new_elements compact_mode | Some e \<Rightarrow> e)"

text \<open>The handler that \<^verbatim>\<open>attachHover\<close> installs; a falsy content is no content.\<close>

fun falsy :: "content \<Rightarrow> bool" where
  "falsy (Text t) = (t = [])"
| "falsy (Markdown m) = False"

definition onmouseenter ::
    "(AbstractFileCoverage \<Rightarrow> content option) \<Rightarrow> bool \<Rightarrow> bars \<Rightarrow> bars" where
  "onmouseenter factory shown s =
     (case coverage' s of
        None \<Rightarrow> s
      | Some c \<Rightarrow>
          (case factory c of
             None \<Rightarrow> s
           | Some content \<Rightarrow>
               if falsy content then s
               else if shown then s\<lparr>visibleStore := visibleStore s @ [Hover content]\<rparr>
               else s))"

text \<open>
  The closure \<^verbatim>\<open>render\<close>. An exception leaves the widget as it is then: the
  result is the error with that state.
\<close>

type_synonym 'a thrown = "(js_error \<times> 'a) + 'a"

definition render ::
    "bool \<Rightarrow> TestingDisplayedCoveragePercent \<Rightarrow> AbstractFileCoverage option \<Rightarrow> bars
      \<Rightarrow> bars thrown" where
  "render compact_mode metric coverage s =
     (let e = el_value compact_mode s;
          s = s\<lparr>el := Some e\<rparr>
      in case coverage of
           None \<Rightarrow>
             Inl (case metric of Unrecognized other \<Rightarrow> Unreachable | known \<Rightarrow> TypeError, s)
         | Some c \<Rightarrow>
             (case calculateDisplayedStat c metric of
                Inl err \<Rightarrow> Inl (err, s)
              | Inr overallStat \<Rightarrow>
                  (case e of
                     Compact text bar \<Rightarrow>
                       (case renderBar bar (Some overallStat) of
                          Inl err \<Rightarrow> Inl (err, s\<lparr>el := Some (Compact (displayPercent overallStat) bar)\<rparr>)
                        | Inr bar \<Rightarrow> Inr (s\<lparr>el := Some (Compact (displayPercent overallStat) bar)\<rparr>))
                   | Full text st m b \<Rightarrow>
                       (case renderBar st (Some (percent (statement c))) of
                          Inl err \<Rightarrow> Inl (err, s\<lparr>el := Some (Full (displayPercent overallStat) st m b)\<rparr>)
                        | Inr st \<Rightarrow>
                       (case renderBar st (map_option percent (function' c)) of
                          Inl err \<Rightarrow> Inl (err, s\<lparr>el := Some (Full (displayPercent overallStat) st m b)\<rparr>)
                        | Inr st \<Rightarrow>
                       (case renderBar st (map_option percent (branch c)) of
                          Inl err \<Rightarrow> Inl (err, s\<lparr>el := Some (Full (displayPercent overallStat) st m b)\<rparr>)
                        | Inr st \<Rightarrow>
                            Inr (s\<lparr>el := Some (Full (displayPercent overallStat) st m b)\<rparr>)))))))"

definition setCoverageInfo ::
    "bool \<Rightarrow> TestingDisplayedCoveragePercent \<Rightarrow> AbstractFileCoverage option \<Rightarrow> bars
      \<Rightarrow> bars thrown" where
  "setCoverageInfo compact_mode metric coverage s =
     (if coverage = None \<and> coverage' s = None
      then Inr (if coverage' s \<noteq> None
                then s\<lparr>coverage' := None, visibleStore := [], fired := fired s + 1\<rparr>
                else s)
      else case render compact_mode metric coverage s of
             Inl err \<Rightarrow> Inl err
           | Inr s \<Rightarrow>
               (let s = s\<lparr>visibleStore := visibleStore s @ [ConfigurationListener coverage]\<rparr>;
                    s = (if coverage' s = None
                         then s\<lparr>coverage' := coverage,
                                visibleStore := visibleStore s @ [RemoveRoot],
                                appended := True\<rparr>
                         else s)
                in Inr (s\<lparr>fired := fired s + 1\<rparr>)))"

text \<open>The listener of lines 119--124, with the coverage its closure holds.\<close>

definition onDidChangeConfiguration ::
    "bool \<Rightarrow> TestingDisplayedCoveragePercent \<Rightarrow> bool \<Rightarrow> AbstractFileCoverage option \<Rightarrow> bars
      \<Rightarrow> bars thrown" where
  "onDidChangeConfiguration compact_mode metric affects coverage s =
     (if affects
      then case render compact_mode metric coverage s of
             Inl err \<Rightarrow> Inl err
           | Inr s \<Rightarrow> Inr (s\<lparr>fired := fired s + 1\<rparr>)
      else Inr s)"

lemmas bars_defs [cov_defs] =
  percent_def precision_def epsilon_def colorThresholds_def renderBar_def
  calculateDisplayedStat_def displayPercent_def new_bar_def new_elements_def new_bars_def
  el_value_def render_def setCoverageInfo_def onDidChangeConfiguration_def onmouseenter_def

section \<open>What the functions compute\<close>

subsection \<open>toFixed\<close>

lemma length_digits: "0 < length (digits n)"
  by (induction n rule: digits.induct) (subst digits.simps, simp)

lemma length_point: "length (take k m @ c # drop k m) = Suc (length m)"
proof -
  have "length (take k m) + length (drop k m) = length m"
    by (metis append_take_drop_id length_append)
  then show ?thesis by simp
qed

lemma length_toFixed:
  assumes "0 < f"
  shows "f + 2 \<le> length (toFixed f x)"
proof -
  define m where "m = digits (nat \<lfloor>\<bar>x\<bar> * 10 ^ f + 1 / 2\<rfloor>)"
  define padded where "padded = replicate (f + 1 - length m) CHR ''0'' @ m"
  have "f + 1 \<le> length padded" by (simp add: padded_def)
  moreover have "toFixed f x =
      (if x < 0 then ''-'' else []) @
        take (length padded - f) padded @ CHR ''.'' # drop (length padded - f) padded"
    using assms by (simp add: toFixed_def Let_def m_def padded_def)
  ultimately show ?thesis by (simp only: length_append length_point) simp
qed

lemma toFixed_not_100 [simp]: "toFixed precision x \<noteq> ''100''"
proof
  assume "toFixed precision x = ''100''"
  then have "length (toFixed precision x) = 3" by simp
  with length_toFixed [of precision x] show False by (simp add: precision_def)
qed

subsection \<open>percent and the metric\<close>

lemma percent_bounds: "count_ok cc \<Longrightarrow> 0 \<le> percent cc \<and> percent cc \<le> 1"
  by (auto simp: percent_def count_ok_def ratio_le_one ratio_nonneg)

lemma present_counts_nonempty [simp]: "present_counts c \<noteq> []"
  by (simp add: present_counts_def)

text \<open>The least percent among the categories a value has.\<close>

definition weakest :: "AbstractFileCoverage \<Rightarrow> rat" where
  "weakest c = Min (percent ` set (present_counts c))"

lemma weakest_cases:
  "weakest c =
     (case (branch c, function' c) of
        (None, None) \<Rightarrow> percent (statement c)
      | (Some b, None) \<Rightarrow> min (percent (statement c)) (percent b)
      | (None, Some f) \<Rightarrow> min (percent (statement c)) (percent f)
      | (Some b, Some f) \<Rightarrow> min (min (percent (statement c)) (percent b)) (percent f))"
  by (auto simp: weakest_def present_counts_def min.assoc min.commute min.left_commute
      split: option.splits)

lemma calculateDisplayedStat_Minimum: "calculateDisplayedStat c Minimum = Inr (weakest c)"
  by (simp add: calculateDisplayedStat_def weakest_cases Let_def split: option.splits)

lemma weakest_bounds:
  assumes "coverage_ok c"
  shows "0 \<le> weakest c \<and> weakest c \<le> 1"
proof -
  have "weakest c \<in> percent ` set (present_counts c)"
    unfolding weakest_def by (rule Min_in) simp_all
  then obtain cc where "cc \<in> set (present_counts c)" and "weakest c = percent cc" by auto
  with assms show ?thesis by (simp add: coverage_ok_present percent_bounds)
qed

lemma tpc_unit:
  assumes "coverage_ok c"
  shows "0 \<le> tpc c \<and> tpc c \<le> 1"
proof -
  let ?s = "sum_list (present_counts c)"
  from assms have ok: "count_ok ?s"
    by (intro count_ok_sum_list) (simp add: coverage_ok_present)
  have "tpc c = percent ?s"
    by (simp add: tpc_sum percent_def Let_def del: total_sum_list covered_sum_list)
  with percent_bounds [OF ok] show ?thesis by simp
qed

subsection \<open>renderBar\<close>

text \<open>The colour of a percentage, as the specification puts it.\<close>

definition bucket :: "rat \<Rightarrow> color" where
  "bucket pct = (if 9 / 10 \<le> pct then chartsGreen else if 8 / 10 \<le> pct then chartsYellow
     else chartsRed)"

lemma find_colorThresholds:
  "find (reaches pct) colorThresholds =
     Some (if 9 / 10 \<le> pct then (chartsGreen, Some (9 / 10))
           else if 8 / 10 \<le> pct then (chartsYellow, Some (8 / 10)) else (chartsRed, None))"
  by (simp add: colorThresholds_def)

definition rendered :: "bar \<Rightarrow> rat option \<Rightarrow> bar" where
  "rendered bar pct =
     (case pct of
        None \<Rightarrow> bar\<lparr>display := ''none''\<rparr>
      | Some p \<Rightarrow> bar\<lparr>display := ''block'', width := Some (p * 100), bar_color := Some (bucket p)\<rparr>)"

lemma renderBar_rendered: "renderBar bar pct = Inr (rendered bar pct)"
  by (cases pct) (simp_all add: renderBar_def rendered_def find_colorThresholds bucket_def)

subsection \<open>render\<close>

text \<open>The state that a result carries, thrown or not.\<close>

fun state_of :: "'a thrown \<Rightarrow> 'a" where
  "state_of (Inl (err, s)) = s"
| "state_of (Inr s) = s"

text \<open>What \<^verbatim>\<open>render\<close> leaves in the elements.\<close>

fun painted :: "AbstractFileCoverage \<Rightarrow> rat \<Rightarrow> elements \<Rightarrow> elements" where
  "painted c v (Compact text bar) = Compact (displayPercent v) (rendered bar (Some v))"
| "painted c v (Full text st m b) =
     Full (displayPercent v)
       (rendered (rendered (rendered st (Some (percent (statement c))))
          (map_option percent (function' c))) (map_option percent (branch c))) m b"

lemma render_Some:
  "render compact_mode metric (Some c) s =
     (case calculateDisplayedStat c metric of
        Inl err \<Rightarrow> Inl (err, s\<lparr>el := Some (el_value compact_mode s)\<rparr>)
      | Inr v \<Rightarrow> Inr (s\<lparr>el := Some (painted c v (el_value compact_mode s))\<rparr>))"
  by (cases "el_value compact_mode s")
    (simp_all add: render_def renderBar_rendered Let_def split: sum.splits)

lemma render_None: "isl (render compact_mode metric None s)"
  by (simp add: render_def Let_def)

lemma render_fields [simp]:
  "coverage' (state_of (render compact_mode metric coverage s)) = coverage' s"
  "visibleStore (state_of (render compact_mode metric coverage s)) = visibleStore s"
  "fired (state_of (render compact_mode metric coverage s)) = fired s"
  "appended (state_of (render compact_mode metric coverage s)) = appended s"
  by (cases coverage; simp add: render_Some split: sum.splits; simp add: render_def Let_def)+

lemma displayed_stat_unit:
  assumes "coverage_ok c" and "calculateDisplayedStat c metric = Inr v"
  shows "0 \<le> v \<and> v \<le> 1"
proof (cases metric)
  case TotalCoverage
  with assms tpc_unit [of c] show ?thesis by (simp add: calculateDisplayedStat_def)
next
  case Statement
  with assms percent_bounds [of "statement c"] show ?thesis
    by (simp add: calculateDisplayedStat_def coverage_ok_def)
next
  case Minimum
  with assms weakest_bounds [of c] show ?thesis by (simp add: calculateDisplayedStat_Minimum)
next
  case (Unrecognized other)
  with assms show ?thesis by (simp add: calculateDisplayedStat_def)
qed

section \<open>The invariant of the widget\<close>

text \<open>
  A bar is shown only with a width, a width is a percentage and comes with a
  colour; the elements are those of the mode; the root is in the container,
  and its removal in the store once, exactly when a coverage is held; every
  listener has captured a coverage.
\<close>

definition bar_ok :: "bar \<Rightarrow> bool" where
  "bar_ok b \<longleftrightarrow>
     display b \<in> set ['''', ''none'', ''block''] \<and>
     (case width b of
        None \<Rightarrow> bar_color b = None \<and> display b \<noteq> ''block''
      | Some w \<Rightarrow> 0 \<le> w \<and> w \<le> 100 \<and> bar_color b \<noteq> None)"

fun elements_ok :: "bool \<Rightarrow> elements \<Rightarrow> bool" where
  "elements_ok compact_mode (Compact text bar) \<longleftrightarrow> compact_mode \<and> bar_ok bar"
| "elements_ok compact_mode (Full text st m b) \<longleftrightarrow>
     \<not> compact_mode \<and> bar_ok st \<and> bar_ok m \<and> bar_ok b"

fun given_ok :: "AbstractFileCoverage option \<Rightarrow> bool" where
  "given_ok None = True"
| "given_ok (Some c) = coverage_ok c"

fun disposable_ok :: "disposable \<Rightarrow> bool" where
  "disposable_ok (ConfigurationListener c) \<longleftrightarrow> c \<noteq> None \<and> given_ok c"
| "disposable_ok other \<longleftrightarrow> True"

definition bars_ok :: "bool \<Rightarrow> bars \<Rightarrow> bool" where
  "bars_ok compact_mode s \<longleftrightarrow>
     (case el s of None \<Rightarrow> coverage' s = None | Some e \<Rightarrow> elements_ok compact_mode e) \<and>
     given_ok (coverage' s) \<and>
     appended s = (coverage' s \<noteq> None) \<and>
     count_list (visibleStore s) RemoveRoot = (if coverage' s = None then 0 else 1) \<and>
     list_all disposable_ok (visibleStore s)"

lemma bars_ok_new [cov_wf, simp]: "bars_ok compact_mode new_bars"
  by (simp add: bars_ok_def new_bars_def)

lemma bar_ok_new [cov_wf, simp]: "bar_ok new_bar"
  by (simp add: bar_ok_def new_bar_def)

lemma rendered_ok [cov_wf]:
  assumes "bar_ok b" and "\<And>p. pct = Some p \<Longrightarrow> 0 \<le> p \<and> p \<le> 1"
  shows "bar_ok (rendered b pct)"
proof (cases pct)
  case None
  with assms(1) show ?thesis by (auto simp: bar_ok_def rendered_def split: option.splits)
next
  case (Some p)
  with assms(2) [of p] show ?thesis by (simp add: bar_ok_def rendered_def)
qed

lemma elements_ok_el_value [cov_wf]:
  "bars_ok compact_mode s \<Longrightarrow> elements_ok compact_mode (el_value compact_mode s)"
  by (auto simp: bars_ok_def el_value_def new_elements_def split: option.splits)

lemma painted_ok [cov_wf]:
  assumes "elements_ok compact_mode e" and "coverage_ok c" and "0 \<le> v \<and> v \<le> 1"
  shows "elements_ok compact_mode (painted c v e)"
proof (cases e)
  case (Compact label bar)
  with assms(1) have "bar_ok bar" by simp
  with assms(3) have "bar_ok (rendered bar (Some v))" by (intro rendered_ok) auto
  with assms(1) Compact show ?thesis by simp
next
  case (Full label st m b)
  from assms(2) have "0 \<le> percent cc \<and> percent cc \<le> 1" if "cc \<in> set (present_counts c)" for cc
    using that by (simp add: coverage_ok_present percent_bounds)
  then have "bar_ok (rendered (rendered (rendered st (Some (percent (statement c))))
          (map_option percent (function' c))) (map_option percent (branch c)))" if "bar_ok st"
    using that by (intro rendered_ok) (auto simp: present_counts_def)
  with assms(1) Full show ?thesis by simp
qed

lemma bars_ok_fired [simp]: "bars_ok compact_mode (s\<lparr>fired := n\<rparr>) = bars_ok compact_mode s"
  by (simp add: bars_ok_def split: option.splits)

lemma bars_ok_listen [cov_wf]:
  "bars_ok compact_mode s \<Longrightarrow> coverage_ok c \<Longrightarrow>
     bars_ok compact_mode (s\<lparr>visibleStore := visibleStore s @ [ConfigurationListener (Some c)]\<rparr>)"
  by (auto simp: bars_ok_def split: option.splits)

lemma bars_ok_adopt [cov_wf]:
  "bars_ok compact_mode s \<Longrightarrow> coverage' s = None \<Longrightarrow> el s \<noteq> None \<Longrightarrow> coverage_ok c \<Longrightarrow>
     bars_ok compact_mode
       (s\<lparr>coverage' := Some c, visibleStore := visibleStore s @ [RemoveRoot], appended := True\<rparr>)"
  by (auto simp: bars_ok_def split: option.splits)

lemma bars_ok_hover [cov_wf]:
  "bars_ok compact_mode s \<Longrightarrow>
     bars_ok compact_mode (s\<lparr>visibleStore := visibleStore s @ [Hover content]\<rparr>)"
  by (auto simp: bars_ok_def split: option.splits)

lemma render_el: "el (state_of (render compact_mode metric coverage s)) \<noteq> None"
proof (cases coverage)
  case None
  then show ?thesis by (simp add: render_def Let_def)
next
  case (Some c)
  then show ?thesis by (simp add: render_Some split: sum.splits)
qed

lemma bars_ok_el:
  "bars_ok compact_mode s \<Longrightarrow> elements_ok compact_mode e \<Longrightarrow>
     bars_ok compact_mode (s\<lparr>el := Some e\<rparr>)"
  by (auto simp: bars_ok_def split: option.splits)

lemma render_ok [cov_wf]:
  assumes "bars_ok compact_mode s" and "given_ok coverage"
  shows "bars_ok compact_mode (state_of (render compact_mode metric coverage s))"
proof (cases coverage)
  case None
  with assms(1) show ?thesis
    by (simp add: render_def Let_def bars_ok_el elements_ok_el_value)
next
  case (Some c)
  with assms show ?thesis
    by (auto simp: render_Some bars_ok_el elements_ok_el_value painted_ok displayed_stat_unit
        split: sum.splits)
qed

lemma setCoverageInfo_ok [cov_wf]:
  assumes "bars_ok compact_mode s" and "given_ok coverage"
  shows "bars_ok compact_mode (state_of (setCoverageInfo compact_mode metric coverage s))"
proof (cases "render compact_mode metric coverage s")
  case (Inl thrown)
  with render_ok [OF assms, of metric] assms(1) show ?thesis
    by (cases thrown) (simp add: setCoverageInfo_def)
next
  case (Inr s')
  from Inr render_None [of compact_mode metric s] obtain c where c: "coverage = Some c"
    by (cases coverage) auto
  from Inr render_ok [OF assms, of metric] render_el [of compact_mode metric coverage s]
    render_fields(1) [of compact_mode metric coverage s]
  have s': "bars_ok compact_mode s'" "el s' \<noteq> None" "coverage' s' = coverage' s" by simp_all
  let ?s = "s'\<lparr>visibleStore := visibleStore s' @ [ConfigurationListener (Some c)]\<rparr>"
  from s' assms(2) c have listen: "bars_ok compact_mode ?s" by (simp add: bars_ok_listen)
  show ?thesis
  proof (cases "coverage' s")
    case None
    with s' have "coverage' ?s = None" "el ?s \<noteq> None" by simp_all
    from bars_ok_adopt [OF listen this, of c] assms(2) c None s'(3) Inr
    show ?thesis by (simp add: setCoverageInfo_def Let_def)
  next
    case (Some held)
    with listen s'(3) Inr c show ?thesis by (simp add: setCoverageInfo_def Let_def)
  qed
qed

lemma onDidChangeConfiguration_ok [cov_wf]:
  assumes "bars_ok compact_mode s" and "given_ok coverage"
  shows "bars_ok compact_mode
    (state_of (onDidChangeConfiguration compact_mode metric affects coverage s))"
proof (cases "render compact_mode metric coverage s")
  case (Inl thrown)
  with render_ok [OF assms, of metric] assms(1) show ?thesis
    by (cases thrown) (simp add: onDidChangeConfiguration_def)
next
  case (Inr s')
  with render_ok [OF assms, of metric] assms(1) show ?thesis
    by (simp add: onDidChangeConfiguration_def)
qed

lemma onmouseenter_ok [cov_wf]:
  "bars_ok compact_mode s \<Longrightarrow> bars_ok compact_mode (onmouseenter factory shown s)"
  by (simp add: onmouseenter_def bars_ok_hover split: option.splits)

lemma setCoverageInfo_held:
  assumes "coverage' s = Some c"
  shows "coverage' (state_of (setCoverageInfo compact_mode metric coverage s)) = Some c \<and>
    length (visibleStore s)
      \<le> length (visibleStore (state_of (setCoverageInfo compact_mode metric coverage s)))"
proof (cases "render compact_mode metric coverage s")
  case (Inl thrown)
  with render_fields(1,2) [of compact_mode metric coverage s] assms show ?thesis
    by (cases thrown) (simp add: setCoverageInfo_def)
next
  case (Inr s')
  with render_fields(1,2) [of compact_mode metric coverage s] assms show ?thesis
    by (simp add: setCoverageInfo_def Let_def)
qed

text \<open>
  The hover of a widget that holds a coverage shows that coverage, also
  after \<^verbatim>\<open>setCoverageInfo\<close> was given another one.
\<close>

lemma onmouseenter_shows_held:
  assumes "coverage' s = Some c" and "factory c = Some content" and "\<not> falsy content"
  shows "visibleStore (onmouseenter factory True
        (state_of (setCoverageInfo compact_mode metric (Some c') s)))
    = visibleStore (state_of (setCoverageInfo compact_mode metric (Some c') s)) @ [Hover content]"
  using setCoverageInfo_held [OF assms(1)] assms(2,3) by (simp add: onmouseenter_def)

section \<open>Evaluation\<close>

lemma digits_less: "n < 10 \<Longrightarrow> digits n = [digit n]"
  by (subst digits.simps) simp

lemma digits_ge: "10 \<le> n \<Longrightarrow> digits n = digits (n div 10) @ [digit (n mod 10)]"
  by (subst digits.simps) simp

lemmas digits_eval = digits_less digits_ge digit_def

lemma toFixed_nonneg:
  assumes "0 \<le> x" and "\<lfloor>x * 10 ^ f + 1 / 2\<rfloor> = int n" and "0 < f"
  shows "toFixed f x =
     (let m = replicate (f + 1 - length (digits n)) CHR ''0'' @ digits n
      in take (length m - f) m @ ''.'' @ drop (length m - f) m)"
  using assms by (simp add: toFixed_def Let_def)

section \<open>Examples\<close>

text \<open>
  A file with 95 of 100 statements and 70 of 100 branches covered, and the
  widget that has been given it once, not in compact mode.
\<close>

definition example_coverage :: AbstractFileCoverage where
  "example_coverage =
     \<lparr>uri = \<lparr>scheme = ''file'', authority = '''', path = ''/a/b/x''\<rparr>,
      statement = CoveredCount 95 100, branch = Some (CoveredCount 70 100), function' = None\<rparr>"

definition example_bars :: bars where
  "example_bars = state_of (setCoverageInfo False Statement (Some example_coverage) new_bars)"

lemma coverage_ok_example [simp]: "coverage_ok example_coverage"
  by (simp add: example_coverage_def coverage_ok_def count_ok_def)

lemma example_bars_coverage: "coverage' example_bars = Some example_coverage"
  by (simp add: example_bars_def setCoverageInfo_def render_Some calculateDisplayedStat_def
      new_bars_def Let_def)

section \<open>Properties\<close>

text \<open>
  Property C13 (functional). The displayed percentage is never capped.
  \<^verbatim>\<open>toFixed(2)\<close> prints a decimal point, so the string it returns is never
  \<^verbatim>\<open>'100'\<close> and the branch of \<^verbatim>\<open>displayPercent\<close> that returns \<^verbatim>\<open>'99.99%'\<close> is
  never taken: every value is shown as \<^verbatim>\<open>toFixed\<close> prints it. The fraction
  99999/100000, which is below \<open>1 - epsilon\<close>, is shown as \<^verbatim>\<open>100.00%\<close>.
\<close>

theorem displayPercent_never_caps:
  "displayPercent value = toFixed precision (value * 100) @ ''%'' \<and>
   99999 / 100000 < 1 - epsilon \<and>
   displayPercent (99999 / 100000) = ''100.00%''"
proof -
  have shown: "displayPercent v = toFixed precision (v * 100) @ ''%''" for v
    by (simp add: displayPercent_def Let_def)
  have "\<lfloor>(99999 / 100000 * 100 :: rat) * 10 ^ 2 + 1 / 2\<rfloor> = int 10000"
    by (simp add: floor_eq_iff)
  then have "toFixed 2 (99999 / 100000 * 100) = ''100.00''"
    by (subst toFixed_nonneg [where n = 10000]) (simp_all add: digits_eval)
  then show ?thesis by (simp add: shown precision_def epsilon_def)
qed

text \<open>
  Property C29 (bounds). The metric selector. For a value whose counts satisfy
  the invariant of the data model, the statement mode selects the percentage
  of the statements, the minimum mode the least percentage among the
  categories the value has, the total mode \<^verbatim>\<open>tpc\<close>, and whatever a recognised
  mode selects lies between 0 and 1; a mode outside the enumeration throws.
\<close>

theorem calculateDisplayedStat_selects:
  assumes "coverage_ok c"
  shows "calculateDisplayedStat c Statement = Inr (percent (statement c)) \<and>
    calculateDisplayedStat c Minimum = Inr (weakest c) \<and>
    calculateDisplayedStat c TotalCoverage = Inr (tpc c) \<and>
    calculateDisplayedStat c (Unrecognized other) = Inl Unreachable \<and>
    (case calculateDisplayedStat c metric of Inl err \<Rightarrow> True | Inr v \<Rightarrow> 0 \<le> v \<and> v \<le> 1)"
  using displayed_stat_unit [OF assms, of metric]
  by (simp add: calculateDisplayedStat_Minimum split: sum.splits)
    (simp add: calculateDisplayedStat_def)

theorem calculateDisplayedStat_selects_witness:
  "coverage_ok example_coverage \<and>
   calculateDisplayedStat example_coverage Statement = Inr (95 / 100) \<and>
   calculateDisplayedStat example_coverage Minimum = Inr (70 / 100)"
proof -
  have "percent (statement example_coverage) = 95 / 100"
    and "weakest example_coverage = 70 / 100"
    by (simp_all add: weakest_cases example_coverage_def percent_def)
  with calculateDisplayedStat_selects [OF coverage_ok_example, of "[]" Minimum]
  show ?thesis by simp
qed

text \<open>
  \<^verbatim>\<open>renderBar\<close> never throws: a threshold is always
  found. Without a percentage the bar is hidden and keeps its width and
  colour; with one it is shown with the percentage as width and the colour of
  the first threshold the percentage reaches: green from 0.9, yellow from
  0.8, red below.
\<close>

theorem renderBar_colors:
  "renderBar bar None = Inr (bar\<lparr>display := ''none''\<rparr>) \<and>
   renderBar bar (Some pct) =
     Inr (bar\<lparr>display := ''block'', width := Some (pct * 100),
           bar_color := Some (if 9 / 10 \<le> pct then chartsGreen
             else if 8 / 10 \<le> pct then chartsYellow else chartsRed)\<rparr>)"
  by (simp add: renderBar_rendered rendered_def bucket_def)

text \<open>
  Property C19 (safety). A coverage, once shown, is never cleared or replaced.
  When the widget holds a coverage, \<^verbatim>\<open>setCoverageInfo\<close> leaves the field
  \<^verbatim>\<open>_coverage\<close> as it is whatever it is given, the store of disposables does
  not shrink, and \<^verbatim>\<open>setCoverageInfo(undefined)\<close> throws instead of hiding the
  bars: the branch that clears is guarded by a condition that excludes it.
\<close>

theorem setCoverageInfo_never_clears:
  assumes "coverage' s = Some c"
  shows "coverage' (state_of (setCoverageInfo compact_mode metric coverage s)) = Some c \<and>
    length (visibleStore s)
      \<le> length (visibleStore (state_of (setCoverageInfo compact_mode metric coverage s))) \<and>
    isl (setCoverageInfo compact_mode metric None s)"
proof -
  from assms render_None [of compact_mode metric s]
  have "isl (setCoverageInfo compact_mode metric None s)"
    by (cases "render compact_mode metric None s") (simp_all add: setCoverageInfo_def)
  with setCoverageInfo_held [OF assms] show ?thesis by simp
qed

theorem setCoverageInfo_never_clears_witness:
  "coverage' example_bars = Some example_coverage \<and>
   coverage' (state_of (setCoverageInfo False Statement None example_bars))
     = Some example_coverage \<and>
   isl (setCoverageInfo False Statement None example_bars)"
  using setCoverageInfo_never_clears [OF example_bars_coverage, of False Statement None]
    example_bars_coverage
  by simp

text \<open>
  Property C23 (functional). Outside compact mode \<^verbatim>\<open>render\<close> paints the bar of
  the statements three times and the bars of the functions and of the
  branches never: afterwards these two are as they were, and the bar of the
  statements is hidden when the value has no branch count and shows the
  percentage of the branches when it has one.
\<close>

theorem render_paints_statement_bar:
  assumes "el_value False s = Full label st m b"
    and "calculateDisplayedStat c metric = Inr v"
  shows "\<exists>st'. render False metric (Some c) s
        = Inr (s\<lparr>el := Some (Full (displayPercent v) st' m b)\<rparr>) \<and>
      display st' = (if branch c = None then ''none'' else ''block'') \<and>
      width st' = Some (100 * percent (case branch c of Some bc \<Rightarrow> bc
        | None \<Rightarrow> (case function' c of Some fc \<Rightarrow> fc | None \<Rightarrow> statement c)))"
  using assms by (auto simp: render_Some rendered_def split: option.splits)

theorem render_paints_statement_bar_witness:
  "el_value False new_bars = Full '''' new_bar new_bar new_bar \<and>
   calculateDisplayedStat (example_coverage\<lparr>branch := None\<rparr>) Statement = Inr (95 / 100) \<and>
   (\<exists>st'. render False Statement (Some (example_coverage\<lparr>branch := None\<rparr>)) new_bars
        = Inr (new_bars\<lparr>el := Some (Full (displayPercent (95 / 100)) st' new_bar new_bar)\<rparr>) \<and>
      display st' = ''none'')"
proof -
  let ?c = "example_coverage\<lparr>branch := None\<rparr>"
  have e: "el_value False new_bars = Full '''' new_bar new_bar new_bar"
    by (simp add: el_value_def new_bars_def new_elements_def)
  have v: "calculateDisplayedStat ?c Statement = Inr (95 / 100)"
    by (simp add: calculateDisplayedStat_def percent_def example_coverage_def)
  have "branch ?c = None" by simp
  with render_paints_statement_bar [OF e v] e v show ?thesis by auto
qed

text \<open>
  Property C31 (type). The invariant of the widget holds of a new widget and
  every handler keeps it, whether it returns or throws: \<^verbatim>\<open>setCoverageInfo\<close>
  and the configuration listener for a coverage whose counts satisfy the
  invariant of the data model, and the mouse handler.
\<close>

theorem bars_ok_preserved:
  assumes "bars_ok compact_mode s" and "given_ok coverage"
  shows "bars_ok compact_mode (state_of (setCoverageInfo compact_mode metric coverage s)) \<and>
    bars_ok compact_mode
      (state_of (onDidChangeConfiguration compact_mode metric affects coverage s)) \<and>
    bars_ok compact_mode (onmouseenter factory shown s)"
  using assms by (simp add: setCoverageInfo_ok onDidChangeConfiguration_ok onmouseenter_ok)

theorem bars_ok_preserved_witness:
  "bars_ok False new_bars \<and> given_ok (Some example_coverage) \<and> bars_ok False example_bars"
proof -
  have g: "given_ok (Some example_coverage)" by simp
  from bars_ok_preserved [OF bars_ok_new g, of False Statement] g
  show ?thesis by (simp add: example_bars_def)
qed

end
