(* ===== verification/Install_Script.thy ===== *)
theory Install_Script
  imports Sysroot Coverage_Bars
begin

text \<open>
  The pipeline script \<^verbatim>\<open>src/build/azure-pipelines/linux/install.sh\<close>. It runs
  under \<^verbatim>\<open>set -e\<close>: the first command that fails ends the script with the
  status of that command. Its steps are the registry setting (line 6), the
  installation of the sysroot by \<^verbatim>\<open>node\<close> (line 8), the toolchain of the
  architecture (lines 10--58) and the loop that runs \<^verbatim>\<open>yarn\<close> (lines 60--67).

  Line 8 loads the compiled module (\<^verbatim>\<open>src/build/lib/fetch.js\<close>, lines 300--451),
  and the script hands its \<^verbatim>\<open>getVSCodeSysroot\<close> the string of
  \<^verbatim>\<open>npm_config_arch\<close>, which no type checks. The first two sections model
  the two compiled installers on a string: on the names of an architecture
  they are the functions of theory \<open>Sysroot\<close>, and on any other string they
  go on with names that are \<^verbatim>\<open>undefined\<close>. An error nobody handles ends
  \<^verbatim>\<open>node\<close> with a status other than 0, as Node does from version 15 on. The
  commands the script calls are inputs: their exit statuses are the fields
  of \<open>script_env\<close>.
\<close>

section \<open>getVSCodeSysroot on a string\<close>

text \<open>The labels of the \<^verbatim>\<open>switch\<close>; on any other string no case is taken.\<close>

definition switch_arch :: "string \<Rightarrow> DebianArchString option" where
  "switch_arch arch =
     (if arch = ''amd64'' then Some amd64
      else if arch = ''arm64'' then Some arm64
      else if arch = ''armhf'' then Some armhf
      else None)"

text \<open>
  \<^verbatim>\<open>getVSCodeSysrootChecksum(expectedName)\<close> when no case was taken and
  \<^verbatim>\<open>expectedName\<close> is \<^verbatim>\<open>undefined\<close>: the test \<^verbatim>\<open>name === expectedName\<close> holds of the
  first line that has no second field.
\<close>

definition checksumOfUndefined :: "string \<Rightarrow> string option" where
  "checksumOfUndefined checksums =
     (case find (\<lambda>line. nth_opt (split_ws line) 1 = None) (js_split CHR 0x0A checksums) of
        None \<Rightarrow> None
      | Some line \<Rightarrow> nth_opt (split_ws line) 0)"

text \<open>
  Lines 379--389 when the name of the asset is \<^verbatim>\<open>undefined\<close>. In \<^verbatim>\<open>fetchGithub\<close>
  the filter is then \<^verbatim>\<open>undefined\<close> too, and the call of it on the first asset of
  the release throws inside the asynchronous stage of the stream, a rejection
  nobody handles, as is what the parsing of the release throws; with no
  asset to call it on, the stage reports that the asset was not found. An
  error of the request for the release is an event of the first stream. Each
  of them ends the process. A stream that emitted
  nothing would end, and \<^verbatim>\<open>fs.writeFileSync(stamp, undefined)\<close> would throw in
  the handler of line 383.
\<close>

fun undefinedName :: "fetch_env \<Rightarrow> string \<Rightarrow> VinylFile fetch_result list \<Rightarrow> sys_error" where
  "undefinedName env repo [] = InvalidArgType ''data''"
| "undefinedName env repo (Inl e # rest) = StreamError (Upstream e)"
| "undefinedName env repo (Inr file # rest) =
     (case parse_assets env (contents file) of
        Inl msg \<Rightarrow> StreamError (Unhandled msg)
      | Inr [] \<Rightarrow> StreamError (AssetNotFound repo ''20231120-245067'')
      | Inr (a # assets) \<Rightarrow> NotAFunction ''assetFilter'')"

text \<open>
  Lines 366--389 when no case of the \<^verbatim>\<open>switch\<close> was taken: the test of the
  stamp compares a string with \<^verbatim>\<open>undefined\<close> and fails, so the function always
  installs.
\<close>

definition installUndefined ::
    "sys_env \<Rightarrow> string \<Rightarrow> world \<Rightarrow> string settled \<times> world" where
  "installUndefined env arch w =
     (let sysroot = path_join (tmpdir env) (''vscode-'' @ arch @ ''-sysroot'');
          w1 = console_log (''Installing '' @ arch @ '' root image: '' @ sysroot) w;
          w2 = rmSync_recursive sysroot w1
      in case mkdirSync sysroot w2 of
           Inl e \<Rightarrow> (settled.Rejected e, w2)
         | Inr w3 \<Rightarrow>
         (case requireAll env (sysrootModules env) of
            Some e \<Rightarrow> (settled.Rejected e, w3)
          | None \<Rightarrow>
             (let (files, n) =
                    fetchUrls (fetching env)
                      (Inl (''/repos/'' @ stripSlashes (sysrootRepository env)
                              @ ''/releases/tags/v20231120-245067''))
                      (Some \<lparr>verbose_opt = None, path_opt = Some sysroot, checksumSha256 = None,
                              base_opt = Present ''https://api.github.com'',
                              nodeFetchOptions = ghApiHeaders (fetching env)\<rparr>)
                      (network w3)
              in (Uncaught (undefinedName (fetching env) (sysrootRepository env) files),
                  w3\<lparr>network := n\<rparr>))))"

text \<open>
  The compiled \<^verbatim>\<open>getVSCodeSysroot\<close> (lines 343--391) on the string it is
  given: on a label of the \<^verbatim>\<open>switch\<close> it is the function of theory \<open>Sysroot\<close>;
  on any other string \<^verbatim>\<open>expectedName\<close> and \<^verbatim>\<open>triple\<close> stay \<^verbatim>\<open>undefined\<close>.
\<close>

definition getVSCodeSysroot_js ::
    "sys_env \<Rightarrow> string \<Rightarrow> world \<Rightarrow> string settled \<times> world" where
  "getVSCodeSysroot_js env arch w =
     (case switch_arch arch of
        Some a \<Rightarrow> getVSCodeSysroot env a w
      | None \<Rightarrow>
          (case fs w (checksumsPath env) of
             None \<Rightarrow> (settled.Rejected (NoSuchFile (checksumsPath env)), w)
           | Some checksums \<Rightarrow>
               if \<not> truthy (checksumOfUndefined checksums)
               then (settled.Rejected (ChecksumNotFound ''undefined''), w)
               else installUndefined env arch w))"

section \<open>getChromiumSysroot on a string\<close>

text \<open>
  The compiled \<^verbatim>\<open>getChromiumSysroot\<close> (lines 393--449) on a string: the key of
  the dictionary is made of whatever string it is given, and a key the
  dictionary does not have leaves \<^verbatim>\<open>sysrootDict\<close> \<^verbatim>\<open>undefined\<close>, whose field
  \<^verbatim>\<open>Tarball\<close> cannot be read.
\<close>

definition sysrootArch_js :: "string \<Rightarrow> string" where
  "sysrootArch_js arch = (if arch = ''armhf'' then ''bullseye_arm'' else ''bullseye_'' @ arch)"

definition getChromiumSysroot_js ::
    "sys_env \<Rightarrow> string \<Rightarrow> world \<Rightarrow> (sys_error + string) \<times> world" where
  "getChromiumSysroot_js env arch w =
     (let (result, written) = curl env (sysrootJSONUrl env);
          w0 = (case written of
                  None \<Rightarrow> w
                | Some text \<Rightarrow> writeFileSync (sysrootDictLocation env) text w)
      in if exit_status result \<noteq> Some 0 then (Inl (CannotRetrieve (stderr result)), w0)
         else case fs w0 (sysrootDictLocation env) of
           None \<Rightarrow> (Inl (NoSuchFile (sysrootDictLocation env)), w0)
         | Some text \<Rightarrow>
             (case sysroots env text (sysrootArch_js arch) of
                None \<Rightarrow> (Inl (NoSysrootEntry (sysrootArch_js arch)), w0)
              | Some sysrootDict \<Rightarrow>
                  (let sysroot = path_join (tmpdir env) (SysrootDir sysrootDict);
                       url = sysrootUrl sysrootDict;
                       stamp = path_join sysroot ''.stamp''
                   in if stamped stamp url w0 then (Inr sysroot, w0)
                      else installChromiumSysroot env arch sysrootDict sysroot url stamp w0)))"

section \<open>The script\<close>

text \<open>
  What the script changes: the files and the console of \<^verbatim>\<open>node\<close>, its own
  variable, the variables it exports, what it writes, and the runs of
  \<^verbatim>\<open>yarn\<close>.
\<close>

record shell =
  node :: world
  VSCODE_SYSROOT_DIR :: string
  exported :: "(string \<times> string) list"
  out_lines :: "string list"
  err_lines :: "string list"
  yarn_runs :: nat

record script_env =
  sys :: sys_env
  pwd :: string
  yarn_config :: nat
  update_clang :: nat
  libcxx_fetcher :: nat
  yarn :: "nat \<Rightarrow> nat"

definition export :: "string \<Rightarrow> string \<Rightarrow> shell \<Rightarrow> shell" where
  "export name v s = s\<lparr>exported := exported s @ [(name, v)]\<rparr>"

text \<open>The value of an exported variable: the last one exported.\<close>

definition getenv :: "shell \<Rightarrow> string \<Rightarrow> string option" where
  "getenv s name = map_of (rev (exported s)) name"

text \<open>
  Line 8. The command substitution returns what \<^verbatim>\<open>node\<close> wrote to its standard
  output, the lines of \<^verbatim>\<open>console.log\<close>, without the last line end. The
  status of \<^verbatim>\<open>node\<close> is 0 when the promise of the call is fulfilled, and 1 when
  it is rejected or an error is not caught.
\<close>

definition captured :: "world \<Rightarrow> world \<Rightarrow> string" where
  "captured w w' = js_join CHR 0x0A (drop (length (console w)) (console w'))"

definition node_getVSCodeSysroot ::
    "sys_env \<Rightarrow> string \<Rightarrow> world \<Rightarrow> nat \<times> string \<times> world" where
  "node_getVSCodeSysroot env arch w =
     (case getVSCodeSysroot_js env arch w of
        (settled.Resolved dir, w') \<Rightarrow> (0, captured w w', w')
      | (other, w') \<Rightarrow> (1, captured w w', w'))"

text \<open>The four variables of a gcc toolchain, for the client or the remote server.\<close>

definition gcc_toolchain :: "string \<Rightarrow> string \<Rightarrow> string \<Rightarrow> string \<Rightarrow> shell \<Rightarrow> shell" where
  "gcc_toolchain prefix triplet lib dir s =
     export (prefix @ ''LDFLAGS'')
       (''--sysroot='' @ dir @ '' -l'' @ dir @ ''/usr/lib/'' @ lib @ '' -l'' @ dir @ ''/lib/'' @ lib)
     (export (prefix @ ''CXXFLAGS'') (''--sysroot='' @ dir)
     (export (prefix @ ''CXX'') (dir @ ''/../../bin/'' @ triplet @ ''-g++'')
     (export (prefix @ ''CC'') (dir @ ''/../../bin/'' @ triplet @ ''-gcc'') s)))"

text \<open>The clang toolchain of lines 27--30.\<close>

definition clang_toolchain :: "string \<Rightarrow> string \<Rightarrow> shell \<Rightarrow> shell" where
  "clang_toolchain here dir s =
     export ''LDFLAGS''
       (''-stdlib=libc++ --sysroot='' @ dir @ '' -fuse-ld=lld -flto=thin -L'' @ here
          @ ''/.build/libcxx-objects -lc++abi -l'' @ dir @ ''/usr/lib/x86_64-linux-gnu -l'' @ dir
          @ ''/lib/x86_64-linux-gnu -Wl,--lto-O0'')
     (export ''CXXFLAGS''
       (''-nostdinc++ -D__NO_INLINE__ -I'' @ here @ ''/.build/libcxx_headers -isystem'' @ here
          @ ''/.build/libcxx_headers/include -isystem'' @ here
          @ ''/.build/libcxxabi_headers/include -fPIC -flto=thin -fsplit-lto-unit''
          @ '' -D_LIBCPP_ABI_NAMESPACE=Cr --sysroot='' @ dir)
     (export ''CXX'' (here @ ''/.build/CR_Clang/bin/clang++'')
     (export ''CC'' (here @ ''/.build/CR_Clang/bin/clang'') s)))"

text \<open>Lines 10--58. The status is that of the command that failed, or 0.\<close>

definition toolchain :: "script_env \<Rightarrow> string \<Rightarrow> shell \<Rightarrow> nat \<times> shell" where
  "toolchain e arch s =
     (let dir = VSCODE_SYSROOT_DIR s in
      if arch = ''x64'' then
        if update_clang e \<noteq> 0 then (update_clang e, s)
        else if libcxx_fetcher e \<noteq> 0 then (libcxx_fetcher e, s)
        else (0, gcc_toolchain ''VSCODE_REMOTE_'' ''x86_64-vscode-linux-gnu'' ''x86_64-linux-gnu'' dir
                   (clang_toolchain (pwd e) dir s))
      else if arch = ''arm64'' then
        (0, gcc_toolchain ''VSCODE_REMOTE_'' ''aarch64-vscode-linux-gnu'' ''aarch64-linux-gnu'' dir
              (gcc_toolchain [] ''aarch64-vscode-linux-gnu'' ''aarch64-linux-gnu'' dir s))
      else if arch = ''arm'' then
        (0, gcc_toolchain ''VSCODE_REMOTE_'' ''arm-vscode-linux-gnueabihf'' ''arm-linux-gnueabihf'' dir
              (gcc_toolchain [] ''arm-vscode-linux-gnueabihf'' ''arm-linux-gnueabihf'' dir s))
      else (0, s))"

text \<open>
  Lines 60--67: the loop over \<^verbatim>\<open>{1..5}\<close>. A run of \<^verbatim>\<open>yarn\<close> that succeeds ends
  the loop; the result is the status the script exits with, if it does.
\<close>

fun yarn_loop :: "(nat \<Rightarrow> nat) \<Rightarrow> nat list \<Rightarrow> shell \<Rightarrow> nat option \<times> shell" where
  "yarn_loop run [] s = (None, s)"
| "yarn_loop run (i # rest) s =
     (let s = s\<lparr>yarn_runs := yarn_runs s + 1\<rparr>
      in if run (yarn_runs s) = 0 then (None, s)
         else if i = 3
           then (Some 1, s\<lparr>err_lines := err_lines s @ [''Yarn failed too many times'']\<rparr>)
           else yarn_loop run rest
                  (s\<lparr>out_lines := out_lines s
                       @ [''Yarn failed '' @ digits i @ '', trying again...'']\<rparr>))"

definition yarn_install :: "(nat \<Rightarrow> nat) \<Rightarrow> shell \<Rightarrow> nat \<times> shell" where
  "yarn_install run s =
     (case yarn_loop run [1, 2, 3, 4, 5] s of (None, s') \<Rightarrow> (0, s') | (Some code, s') \<Rightarrow> (code, s'))"

text \<open>The script: the status it ends with and what it leaves.\<close>

definition install_sh :: "script_env \<Rightarrow> string \<Rightarrow> shell \<Rightarrow> nat \<times> shell" where
  "install_sh e npm_config_arch s =
     (if yarn_config e \<noteq> 0 then (yarn_config e, s)
      else case node_getVSCodeSysroot (sys e) npm_config_arch (node s) of
             (code, dir, w) \<Rightarrow>
               if code \<noteq> 0 then (code, s\<lparr>node := w\<rparr>)
               else (case toolchain e npm_config_arch (s\<lparr>node := w, VSCODE_SYSROOT_DIR := dir\<rparr>) of
                       (code, s') \<Rightarrow>
                         if code \<noteq> 0 then (code, s')
                         else yarn_install (yarn e) s'))"

lemmas script_defs [cov_defs] =
  switch_arch_def getVSCodeSysroot_js_def node_getVSCodeSysroot_def captured_def export_def
  getenv_def gcc_toolchain_def clang_toolchain_def toolchain_def yarn_install_def install_sh_def

section \<open>Lemmas\<close>

lemma find_no_name:
  "list_all wf_entry entries \<Longrightarrow>
     find (\<lambda>line. nth_opt (split_ws line) 1 = None) (map entry_line entries @ [[]]) = Some []"
  by (induction entries) (simp_all add: split_ws_entry_line)

lemma checksumOfUndefined_checksum_file:
  assumes "list_all wf_entry entries"
  shows "checksumOfUndefined (checksum_file entries) = Some []"
  unfolding checksumOfUndefined_def lines_checksum_file [OF assms] find_no_name [OF assms]
  by simp

lemma node_unmatched:
  assumes "switch_arch arch = None" and "list_all wf_entry entries"
    and "fs w (checksumsPath env) = Some (checksum_file entries)"
  shows "node_getVSCodeSysroot env arch w = (1, [], w)"
  using assms
  by (simp add: node_getVSCodeSysroot_def getVSCodeSysroot_js_def captured_def
      checksumOfUndefined_checksum_file)

text \<open>Without a case of the \<^verbatim>\<open>switch\<close> the promise is never fulfilled.\<close>

lemma installUndefined_fails:
  "fst (installUndefined env arch w) \<noteq> settled.Resolved dir"
  by (simp add: installUndefined_def Let_def case_prod_beta split: sum.splits option.splits)

lemma getVSCodeSysroot_js_unmatched:
  "switch_arch arch = None \<Longrightarrow> fst (getVSCodeSysroot_js env arch w) \<noteq> settled.Resolved dir"
  by (simp add: getVSCodeSysroot_js_def installUndefined_fails split: option.splits)

lemma node_fails:
  assumes "switch_arch arch = None"
  shows "fst (node_getVSCodeSysroot env arch w) = 1"
proof (cases "getVSCodeSysroot_js env arch w")
  case (Pair r w')
  with getVSCodeSysroot_js_unmatched [OF assms, of env w]
  have "\<And>dir. r \<noteq> settled.Resolved dir" by simp
  with Pair show ?thesis by (cases r) (auto simp: node_getVSCodeSysroot_def)
qed

text \<open>On the strings of its type the compiled function is the function of the source.\<close>

lemma sysrootArch_js_typed [simp]: "sysrootArch_js (arch_name arch) = sysrootArch arch"
  by (cases arch) (simp_all add: sysrootArch_js_def sysrootArch_def)

lemma switch_arch_typed [simp]: "switch_arch (arch_name arch) = Some arch"
  by (cases arch) (simp_all add: switch_arch_def)

lemma getVSCodeSysroot_js_typed:
  "getVSCodeSysroot_js env (arch_name arch) w = getVSCodeSysroot env arch w"
  by (simp add: getVSCodeSysroot_js_def)

lemma getChromiumSysroot_js_typed:
  "getChromiumSysroot_js env (arch_name arch) w = getChromiumSysroot env arch w"
  by (simp add: getChromiumSysroot_js_def getChromiumSysroot_def fetchSysrootDict_def Let_def
      case_prod_beta split: option.splits)

lemma getChromiumSysroot_js_no_entry:
  assumes "curl env (sysrootJSONUrl env) = (\<lparr>exit_status = Some 0, stderr = msg\<rparr>, Some t)"
    and "sysroots env t (sysrootArch_js arch) = None"
  shows "fst (getChromiumSysroot_js env arch w) = Inl (NoSysrootEntry (sysrootArch_js arch))"
  using assms by (simp add: getChromiumSysroot_js_def Let_def)

lemma getVSCodeSysroot_stamped:
  assumes "fs w (checksumsPath env) = Some checksums"
    and "truthy (getVSCodeSysrootChecksum checksums (expectedName arch))"
    and "stamped (path_join (vscodeSysroot env arch) ''.stamp'') (expectedName arch) w"
  shows "getVSCodeSysroot env arch w = (settled.Resolved (vscodeSysroot env arch), w)"
  using assms by (simp add: getVSCodeSysroot_def Let_def)

lemma getenv_export [simp]:
  "getenv (export name v s) name' = (if name' = name then Some v else getenv s name')"
  by (simp add: getenv_def export_def)

lemma export_fields [simp]:
  "node (export name v s) = node s"
  "VSCODE_SYSROOT_DIR (export name v s) = VSCODE_SYSROOT_DIR s"
  "yarn_runs (export name v s) = yarn_runs s"
  by (simp_all add: export_def)

lemma getenv_yarn_install [simp]: "getenv (snd (yarn_install run s)) name = getenv s name"
  by (simp add: getenv_def yarn_install_def Let_def)

lemma yarn_install_fields [simp]:
  "node (snd (yarn_install run s)) = node s"
  "VSCODE_SYSROOT_DIR (snd (yarn_install run s)) = VSCODE_SYSROOT_DIR s"
  "exported (snd (yarn_install run s)) = exported s"
  by (simp_all add: yarn_install_def Let_def)

text \<open>What the command substitution of line 8 returns.\<close>

lemma captured_cases:
  "console w' = console w \<Longrightarrow> captured w w' = []"
  "console w' = console w @ [line] \<Longrightarrow> captured w w' = line"
  by (simp_all add: captured_def)

lemma captured_getVSCodeSysroot:
  "captured w (snd (getVSCodeSysroot env arch w)) = [] \<or>
   captured w (snd (getVSCodeSysroot env arch w))
     = ''Installing '' @ arch_name arch @ '' root image: '' @ vscodeSysroot env arch"
  using console_getVSCodeSysroot [of env arch w] by (auto simp: captured_cases)

lemma resolved_not_printed:
  assumes "fst (getVSCodeSysroot env arch w) = settled.Resolved p"
  shows "captured w (snd (getVSCodeSysroot env arch w)) \<noteq> p"
proof -
  from getVSCodeSysroot_resolved [OF assms]
  have "p \<noteq> []" and "p \<noteq> ''Installing '' @ arch_name arch @ '' root image: '' @ vscodeSysroot env arch"
    by (cases arch; auto simp: vscodeSysroot_def path_join_def dest: arg_cong [where f = length])+
  with captured_getVSCodeSysroot [of w env arch] show ?thesis by auto
qed

text \<open>The toolchain on the names of the architectures of \<^verbatim>\<open>getVSCodeSysroot\<close>.\<close>

lemma toolchain_dir [simp]: "VSCODE_SYSROOT_DIR (snd (toolchain e arch s)) = VSCODE_SYSROOT_DIR s"
  by (simp add: toolchain_def gcc_toolchain_def clang_toolchain_def Let_def)

lemma toolchain_typed: "fst (toolchain e (arch_name arch) s) = 0"
  by (cases arch) (simp_all add: toolchain_def Let_def)

text \<open>
  On \<^verbatim>\<open>arm64\<close> with the stamp in place the variable is empty and the compiler
  that the script exports is \<^verbatim>\<open>/../../bin/aarch64-vscode-linux-gnu-gcc\<close>.
\<close>

lemma install_sh_stamped_arm64:
  assumes "fs (node s) (checksumsPath (sys e)) = Some checksums"
    and "truthy (getVSCodeSysrootChecksum checksums (expectedName arm64))"
    and "stamped (path_join (vscodeSysroot (sys e) arm64) ''.stamp'') (expectedName arm64) (node s)"
    and "yarn_config e = 0"
  shows "VSCODE_SYSROOT_DIR (snd (install_sh e ''arm64'' s)) = [] \<and>
    getenv (snd (install_sh e ''arm64'' s)) ''CC''
      = Some ''/../../bin/aarch64-vscode-linux-gnu-gcc'' \<and>
    getenv (snd (install_sh e ''arm64'' s)) ''CXXFLAGS'' = Some ''--sysroot=''"
proof -
  note resolved = getVSCodeSysroot_stamped [OF assms(1,2,3)]
  then have "node_getVSCodeSysroot (sys e) ''arm64'' (node s) = (0, [], node s)"
    by (simp add: node_getVSCodeSysroot_def getVSCodeSysroot_js_def switch_arch_def captured_def)
  with assms(4) show ?thesis
    by (simp add: install_sh_def toolchain_def gcc_toolchain_def split_beta)
qed

section \<open>Examples\<close>

text \<open>
  A pipeline whose commands succeed, except that \<^verbatim>\<open>yarn\<close> fails twice before it
  succeeds; and the machine of theory \<open>Sysroot\<close> after an installation for
  \<open>arm64\<close>, its stamp in place.
\<close>

definition example_script :: script_env where
  "example_script =
     \<lparr>sys = example_sys, pwd = ''/src'', yarn_config = 0, update_clang = 0, libcxx_fetcher = 0,
      yarn = (\<lambda>n. if n < 3 then 1 else 0)\<rparr>"

definition example_shell :: shell where
  "example_shell =
     \<lparr>node = example_world, VSCODE_SYSROOT_DIR = [], exported = [], out_lines = [],
      err_lines = [], yarn_runs = 0\<rparr>"

definition stamped_shell :: shell where
  "stamped_shell =
     example_shell\<lparr>node := writeFileSync ''/tmp/vscode-arm64-sysroot/.stamp''
       (expectedName arm64) example_world\<rparr>"

lemma example_checksums_at:
  "fs (node example_shell) (checksumsPath (sys example_script))
     = Some (checksum_file example_checksums)"
  "fs (node stamped_shell) (checksumsPath (sys example_script))
     = Some (checksum_file example_checksums)"
  by (simp_all add: example_shell_def stamped_shell_def example_script_def example_sys_def
      example_world_def checksumsPath_def writeFileSync_def)

section \<open>Properties\<close>

text \<open>
  Property C33 (termination). The loop gives up after three runs. \<^verbatim>\<open>yarn\<close> is
  run at most three times, although the loop counts to five: the script ends
  with status 1 exactly when the first three runs fail, and with a run that
  succeeds among them the loop ends with status 0.
\<close>

theorem yarn_install_three_attempts:
  "yarn_runs (snd (yarn_install run s)) \<le> yarn_runs s + 3 \<and>
   fst (yarn_install run s) =
     (if run (yarn_runs s + 1) \<noteq> 0 \<and> run (yarn_runs s + 2) \<noteq> 0 \<and> run (yarn_runs s + 3) \<noteq> 0
      then 1 else 0)"
  by (simp add: yarn_install_def Let_def numeral_3_eq_3 numeral_2_eq_2)

text \<open>
  Property C17 (error). On \<^verbatim>\<open>x64\<close> and on \<^verbatim>\<open>arm\<close> the script stops at line 8.
  The \<^verbatim>\<open>switch\<close> of \<^verbatim>\<open>getVSCodeSysroot\<close> knows \<^verbatim>\<open>amd64\<close>, \<^verbatim>\<open>arm64\<close> and
  \<^verbatim>\<open>armhf\<close>; for the two other values that the script tests the promise is
  never fulfilled, whatever the machine holds: \<^verbatim>\<open>node\<close> fails and the script
  ends with status 1 before it has set a toolchain or run \<^verbatim>\<open>yarn\<close>. All it
  has changed is what \<^verbatim>\<open>node\<close> changed.
\<close>

theorem install_sh_stops_at_sysroot:
  assumes "arch = ''x64'' \<or> arch = ''arm''" and "yarn_config e = 0"
  shows "install_sh e arch s
    = (1, s\<lparr>node := snd (snd (node_getVSCodeSysroot (sys e) arch (node s)))\<rparr>)"
proof -
  from assms(1) have "switch_arch arch = None" by (auto simp: switch_arch_def)
  from node_fails [OF this, of "sys e" "node s"] assms(2) show ?thesis
    by (simp add: install_sh_def case_prod_beta)
qed

theorem install_sh_stops_at_sysroot_witness:
  "yarn_config example_script = 0 \<and>
   install_sh example_script ''x64'' example_shell = (1, example_shell)"
proof -
  have a: "''x64'' = ''x64'' \<or> ''x64'' = ''arm''" by simp
  have y: "yarn_config example_script = 0" by (simp add: example_script_def)
  have "switch_arch ''x64'' = None" by (simp add: switch_arch_def)
  from node_unmatched [OF this example_checksums_wf example_checksums_at(1)]
  have "snd (snd (node_getVSCodeSysroot (sys example_script) ''x64'' (node example_shell)))
      = node example_shell" by simp
  with install_sh_stops_at_sysroot [OF a y, of example_shell] y show ?thesis by simp
qed

text \<open>
  Property C21 (functional). The script never learns the directory. Line 8
  takes the standard output of \<^verbatim>\<open>node\<close> for the directory, and the program
  it runs prints nothing but the line \<^verbatim>\<open>Installing ... root image\<close> of an
  installation. Whenever \<^verbatim>\<open>getVSCodeSysroot\<close> resolves, on any of its
  architectures, \<^verbatim>\<open>VSCODE_SYSROOT_DIR\<close> is what was printed: empty when the
  stamp was found, that line after an installation, and never the directory
  the promise resolved to.
\<close>

theorem install_sh_sysroot_dir_is_output:
  assumes "fst (getVSCodeSysroot (sys e) arch (node s)) = settled.Resolved p"
    and "yarn_config e = 0"
  shows "VSCODE_SYSROOT_DIR (snd (install_sh e (arch_name arch) s))
      = captured (node s) (snd (getVSCodeSysroot (sys e) arch (node s))) \<and>
    VSCODE_SYSROOT_DIR (snd (install_sh e (arch_name arch) s)) \<noteq> p \<and>
    (VSCODE_SYSROOT_DIR (snd (install_sh e (arch_name arch) s)) = [] \<or>
     VSCODE_SYSROOT_DIR (snd (install_sh e (arch_name arch) s))
       = ''Installing '' @ arch_name arch @ '' root image: '' @ vscodeSysroot (sys e) arch)"
proof -
  let ?w = "snd (getVSCodeSysroot (sys e) arch (node s))"
  from assms(1) have "node_getVSCodeSysroot (sys e) (arch_name arch) (node s)
      = (0, captured (node s) ?w, ?w)"
    by (simp add: node_getVSCodeSysroot_def getVSCodeSysroot_js_typed case_prod_beta)
  with assms(2) have "VSCODE_SYSROOT_DIR (snd (install_sh e (arch_name arch) s))
      = captured (node s) ?w"
    by (simp add: install_sh_def toolchain_typed case_prod_beta)
  with resolved_not_printed [OF assms(1)] captured_getVSCodeSysroot [of "node s" "sys e" arch]
  show ?thesis by simp
qed

theorem install_sh_sysroot_dir_is_output_witness:
  "yarn_config example_script = 0 \<and>
   fst (getVSCodeSysroot (sys example_script) amd64 (node example_shell))
     = settled.Resolved
         ''/tmp/vscode-amd64-sysroot/x86_64-vscode-linux-gnu/x86_64-vscode-linux-gnu/sysroot'' \<and>
   VSCODE_SYSROOT_DIR (snd (install_sh example_script ''amd64'' example_shell))
     = ''Installing amd64 root image: /tmp/vscode-amd64-sysroot'' \<and>
   VSCODE_SYSROOT_DIR (snd (install_sh example_script ''arm64'' stamped_shell)) = []"
proof -
  have y: "yarn_config example_script = 0" by (simp add: example_script_def)
  have h: "fst (getVSCodeSysroot (sys example_script) amd64 (node example_shell))
      = settled.Resolved
          ''/tmp/vscode-amd64-sysroot/x86_64-vscode-linux-gnu/x86_64-vscode-linux-gnu/sysroot''"
    using example_install by (simp add: example_script_def example_shell_def)
  have "truthy (getVSCodeSysrootChecksum (checksum_file example_checksums) (expectedName amd64))"
    unfolding example_checksum by simp
  note run = getVSCodeSysroot_fresh [OF example_checksums_file this example_fresh]
  have "console (snd (getVSCodeSysroot (sys example_script) amd64 (node example_shell)))
      = console (node example_shell) @ [''Installing amd64 root image: /tmp/vscode-amd64-sysroot'']"
    by (simp add: example_script_def example_shell_def run console_installVSCodeSysroot
        example_vscodeSysroot)
  then have amd: "captured (node example_shell)
      (snd (getVSCodeSysroot (sys example_script) amd64 (node example_shell)))
      = ''Installing amd64 root image: /tmp/vscode-amd64-sysroot''"
    by (rule captured_cases)
  have c: "truthy (getVSCodeSysrootChecksum (checksum_file example_checksums) (expectedName arm64))"
    unfolding example_checksum by simp
  have "stamped (path_join (vscodeSysroot (sys example_script) arm64) ''.stamp'')
      (expectedName arm64) (node stamped_shell)"
    by (simp add: stamped_def stamped_shell_def example_vscodeSysroot example_script_def
        path_join_def)
  note st = getVSCodeSysroot_stamped [OF example_checksums_at(2) c this]
  then have arm: "fst (getVSCodeSysroot (sys example_script) arm64 (node stamped_shell))
      = settled.Resolved (vscodeSysroot (sys example_script) arm64)" by simp
  from install_sh_sysroot_dir_is_output [OF h y] install_sh_sysroot_dir_is_output [OF arm y]
    amd st y h
  show ?thesis by (simp add: captured_cases)
qed

end
