(* ===== verification/Spec2Isabelle.thy ===== *)
theory Spec2Isabelle
  imports Coverage_Session Install_Script
begin

text \<open>
  \<^bold>\<open>A model of the test-coverage core of the workbench and of the build
  tooling that comes with it, with their proofs.\<close>

  \<^bold>\<open>The program.\<close> The sources under \<^verbatim>\<open>src/\<close> are three files.
  \<^verbatim>\<open>src/unnamed/part_000\<close> holds two TypeScript modules: \<^verbatim>\<open>testCoverageBars.ts\<close>
  (lines 1--188), the widget that draws coverage bars, and \<^verbatim>\<open>testCoverage.ts\<close>
  (lines 189--353), the coverage session: class \<^verbatim>\<open>TestCoverage\<close>, which asks a
  provider for the coverage of every file once, stores the files as leaves of
  a prefix tree keyed by scheme, authority and path segments, and computes for
  every directory the sum of what lies below it; and the node classes
  \<^verbatim>\<open>AbstractFileCoverage\<close>, \<^verbatim>\<open>FileCoverage\<close> and \<^verbatim>\<open>ComputedFileCoverage\<close>.
  \<^verbatim>\<open>src/build/lib/fetch.js\<close> holds three modules of the build: \<^verbatim>\<open>fetch.ts\<close>
  (lines 1--138), download with retries and from GitHub releases;
  \<^verbatim>\<open>install-sysroot.ts\<close> (lines 139--299), which installs a sysroot with
  them; and the compiled copy of the latter (lines 300--451).
  \<^verbatim>\<open>src/build/azure-pipelines/linux/install.sh\<close> is the pipeline script that
  runs the compiled copy. The modules \<^verbatim>\<open>prefixTree.ts\<close>, \<^verbatim>\<open>testTypes.ts\<close> and
  \<^verbatim>\<open>uri.ts\<close> that \<^verbatim>\<open>testCoverage.ts\<close> imports are not among the sources; they
  are modelled from the specification and marked so.

  \<^bold>\<open>How the parts interact.\<close> The widget reads the counts of a node and its
  \<^verbatim>\<open>tpc\<close>; the nodes come from the tree that the session builds from the
  answer of the provider; the session and every leaf cache a promise by the
  same protocol. \<^verbatim>\<open>getVSCodeSysroot\<close> downloads with \<^verbatim>\<open>fetchGithub\<close>, which
  calls \<^verbatim>\<open>fetchUrl\<close> twice; \<^verbatim>\<open>install.sh\<close> calls \<^verbatim>\<open>getVSCodeSysroot\<close> and
  builds its compiler flags from what the call prints.

  \<^bold>\<open>The theories\<close>, in the order of their imports.

  \<^descr> \<open>Coverage_Prelude\<close>: the fact collections \<open>cov_defs\<close> and \<open>cov_wf\<close>, the
  types \<open>segment\<close>, \<open>tree_path\<close> and \<open>percent\<close>, and the JavaScript primitives
  the sources call: \<open>js_split\<close> and \<open>js_join\<close> for \<^verbatim>\<open>split('/')\<close> and
  \<^verbatim>\<open>join('/')\<close> with their round trips, \<open>nth_opt\<close> for an array read that is
  \<^verbatim>\<open>undefined\<close> past the end, \<open>map_upsert\<close> for \<^verbatim>\<open>Map.set\<close> that keeps insertion
  order.

  \<^descr> \<open>Test_Types\<close> (from the specification): \<open>ICoveredCount\<close> with
  \<open>emptyCounts\<close> and \<open>sumCounts\<close>, made an instance of \<open>comm_monoid_add\<close> so that
  \<open>sum_list\<close> and the library's lemmas on sums apply; the invariant \<open>count_ok\<close>
  (\<open>0 \<le> covered \<le> total\<close>); the record \<open>URI\<close>.

  \<^descr> \<open>Prefix_Tree\<close> (from the specification): \<open>IPrefixTreeNode\<close>, a node with
  an optional value and an association list of children; \<open>insert_tree\<close>,
  \<open>find_tree\<close>, \<open>nodes\<close>; the invariant \<open>wf_tree\<close> (distinct keys at every
  node). The source holds references to nodes and writes to them; the model
  names a node by its position, reads it with \<open>subtree\<close> and writes it with
  \<open>update_at\<close>. The lemmas relate the three: \<open>find_insert\<close>,
  \<open>subtree_update_at\<close>, \<open>nodes_iff_subtree\<close>.

  \<^descr> \<open>Promise_Cache\<close>: the protocol of \<^verbatim>\<open>getAllFiles\<close> (lines 218--227) and
  \<^verbatim>\<open>details\<close> (lines 343--352), \<^verbatim>\<open>slot ??= start(); try { return await slot }
  catch { slot = undefined; throw }\<close>, as a machine. The state is the record
  \<open>cache\<close>: the slot, the promises made, the callers that wait on a pending
  promise, the queue of jobs, the calls of the provider and what has been
  returned. The events are those that run-to-completion makes atomic: \<open>Call\<close>
  (the function up to its \<^verbatim>\<open>await\<close>: \<open>call\<close>, made of \<open>start\<close> and
  \<open>await_slot\<close>), \<open>Settle\<close> (the provider settles a promise) and \<open>Run\<close> (one job
  resumes callers: \<open>resume\<close>). \<open>step\<close> and \<open>exec\<close> run events; the inductive set
  \<open>settled_runs\<close> holds the states reached when no call comes while the slot
  holds a rejected promise. The lemmas: the invariant \<open>coherent\<close> of those
  runs and one preservation lemma for each event; at most one promise in
  flight; a held value stays (\<open>holds_exec\<close>); the outcome of a round of
  callers (\<open>exec_round\<close>); the events \<open>late_call\<close>, which from every state with
  waiters leave the invariant (\<open>exec_window\<close>, \<open>exec_second_flight\<close>); and what
  every run keeps, the late ones included: the invariant \<open>tracked\<close> and the
  multiset \<open>owed\<close> of the callers that have returned, are queued or wait
  (\<open>tracked_exec\<close>), from which draining (\<open>exec_drain\<close>) returns them all.

  \<^descr> \<open>File_Coverage\<close>: the node classes of \<^verbatim>\<open>testCoverage.ts\<close> lines 291--338.
  \<open>AbstractFileCoverage\<close> is a record, \<open>IFileCoverage\<close> its extension by
  \<^verbatim>\<open>details\<close>, \<open>FileCoverageNode\<close> the union of the two concrete classes with
  the constructors \<open>FileCoverage_new\<close> and \<open>ComputedFileCoverage_new\<close>. \<open>tpc\<close>
  is the getter of lines 301--316 over exact rationals. The lemmas: the
  invariant \<open>coverage_ok\<close> and that the constructors keep it, \<open>tpc\<close> as one
  quotient of sums, its bounds, and what the assignment of line 322 does.

  \<^descr> \<open>Test_Coverage\<close>: \<^verbatim>\<open>TestCoverage.createFileCoverage\<close> (lines 247--288)
  after its \<^verbatim>\<open>await\<close>. \<open>treePathForUri\<close> and \<open>treePathToUri\<close> are the two key
  functions; \<open>insertFiles\<close> is the first loop; \<open>calculateComputed\<close> with
  \<open>calculateChildren\<close> is the closure of lines 258--281, returning the value
  and the node as the closure leaves it; \<open>sumChild\<close> and \<open>sumOptional\<close> are
  lines 274--276; \<open>computeNodes\<close> is the loop of lines 283--285 and \<open>findUri\<close>
  the lookup of \<^verbatim>\<open>getUri\<close>.

  \<^descr> \<open>Coverage_Aggregation\<close>: what the construction computes. The
  specification of a directory's value is \<open>is_aggregate_of\<close>: the sum over the
  \<open>frontier\<close> of the node, the nearest descendants that had a value. The
  relation \<open>filled_from t\<^sub>1 t\<close> says that \<open>t\<close> is \<open>t\<^sub>1\<close> with some of its empty
  nodes filled by their aggregates; \<open>calculate_refines\<close> shows that
  \<open>calculateComputed\<close> establishes it, \<open>filled_from_update_at\<close> that a step of
  the loop keeps it, and the properties of the finished tree follow: values
  are kept, every node gets one, directories hold their aggregates, leaves
  are found under their keys.

  \<^descr> \<open>Coverage_Session\<close>: the two users of the protocol. The session is the
  machine with the tree as value: \<open>TestCoverage_new\<close>, \<open>getAllFiles\<close>, the event
  \<open>provideFileCoverage\<close> of the provider's answer, which
  \<open>createFileCoverage\<close> turns into the tree, and \<open>getUri\<close>. The leaf is the
  machine with the details as value, the slot of the constructor
  (\<open>FileCoverage_slot\<close>) and the index of the leaf as the argument of the
  resolver (\<open>FileCoverage_details\<close>). The theorems are about runs of both:
  callers share one request, a failure is retried, given details are never
  asked for, and the index a leaf asks with.

  \<^descr> \<open>Coverage_Bars\<close>: \<^verbatim>\<open>testCoverageBars.ts\<close>. The numbers and strings:
  \<open>percent\<close>, \<open>calculateDisplayedStat\<close>, \<open>displayPercent\<close> with \<open>toFixed\<close>,
  \<open>renderBar\<close> with \<open>colorThresholds\<close>, the hover texts. The widget
  \<^verbatim>\<open>AbstractTestCoverageBars\<close> is the record \<open>bars\<close> with one function for each
  handler: \<open>setCoverageInfo\<close> and its closure \<open>render\<close>,
  \<open>onDidChangeConfiguration\<close>, \<open>onmouseenter\<close>; a handler returns the state, or
  the error thrown with the state at the throw. The lemmas: closed forms of
  \<open>renderBar\<close> and \<open>render\<close> (\<open>rendered\<close>, \<open>painted\<close>), bounds of the
  percentages, the invariant \<open>bars_ok\<close> with one preservation lemma for each
  handler.

  \<^descr> \<open>Fetch\<close>: \<^verbatim>\<open>fetch.ts\<close>. The network is the environment \<open>fetch_env\<close>:
  what the \<open>k\<close>-th request of a URL meets; the state \<open>net\<close> records requests,
  log lines and time slept. \<open>fetchUrl\<close> is a recursive function over
  \<open>attempt\<close>, \<open>receive\<close> and \<open>sleep\<close>. \<open>fetchUrls\<close> runs it on the URLs of a
  list one after the other (\<open>fetchEach\<close>); \<open>fetchUrlsAtOnce\<close> is the stream as
  it runs, the downloads making their attempts (\<open>advance\<close>) in an order that
  is a parameter (\<open>interleave\<close>), and the lemmas \<open>interleave_promised\<close> and
  \<open>interleave_finished\<close> show that the order changes no result and that
  eleven turns finish a download. \<open>fetchGithub\<close> asks for the release, finds
  the asset and downloads it; an error of the first stream is marked
  \<open>Upstream\<close>, and what the parsing of the release throws is \<open>Unhandled\<close>. The
  specification is \<open>deciding\<close>, the request that decides a call, and
  \<open>outcome_result\<close>, what a request gives; \<open>fetchUrl_spec\<close> relates them.

  \<^descr> \<open>Sysroot\<close>: \<^verbatim>\<open>install-sysroot.ts\<close>. The machine is the record \<open>world\<close>:
  the files by their paths, the set of directories, the lines of the
  standard output and of the standard error, the network and the count of
  \<^verbatim>\<open>https.get\<close>; the tools are fields of \<open>sys_env\<close>, and so is what the loading
  of a module throws (\<open>require_error\<close>) and what the writing of an unpacked
  file fails with (\<open>dest_error\<close>). \<open>getSha\<close> hashes in blocks through one
  buffer that every read overwrites from its start (\<open>readSync\<close>,
  \<open>hashBlocks\<close>), \<open>getVSCodeSysrootChecksum\<close> reads the file of checksums,
  \<open>getVSCodeSysroot\<close> and \<open>getChromiumSysroot\<close> install: they remove the old
  directory (\<open>rmSync_recursive\<close>), make it again (\<open>mkdirSync\<close>, which fails
  without the parent directory; \<open>mkdirFailure\<close> says when), download, the
  latter with the loop \<open>downloadLoop\<close>, unpack and stamp. The promise of
  \<open>getVSCodeSysroot\<close> ends in one of three ways (\<open>settled\<close>): resolved;
  rejected, by the executor (\<open>mkdirSync\<close>, \<open>requireAll\<close>) or by the handler on
  the last stream of the pipe (\<open>gulp_dest\<close>); or neither, because the error
  is an event of a stream nobody listens to, which is the outcome
  \<open>Uncaught\<close>. \<open>unpackEnding\<close> and \<open>destFailure\<close> say which, as functions of
  what the download emits.

  \<^descr> \<open>Install_Script\<close>: the compiled installers on a string
  (\<open>getVSCodeSysroot_js\<close> with \<open>installUndefined\<close> for a string outside the
  \<^verbatim>\<open>switch\<close>, \<open>getChromiumSysroot_js\<close>), which on the names of an architecture
  are the functions of theory \<open>Sysroot\<close> (\<open>getVSCodeSysroot_js_typed\<close>,
  \<open>getChromiumSysroot_js_typed\<close>); and \<^verbatim>\<open>install.sh\<close> under \<^verbatim>\<open>set -e\<close>, a
  function from the state of the shell to its exit status and final state:
  \<open>install_sh\<close>, made of \<open>node_getVSCodeSysroot\<close> (line 8, with the output of
  \<^verbatim>\<open>node\<close> \<open>captured\<close>), \<open>toolchain\<close> (lines 10--58) and \<open>yarn_install\<close>
  (lines 60--67).

  \<^bold>\<open>Numbers.\<close> Counts are \<^typ>\<open>int\<close> and quotients \<^typ>\<open>rat\<close>: the sources
  compute with IEEE doubles, which are exact on the integers below $2^{53}$;
  the rounding of a quotient is not modelled, so \<open>tpc\<close> and \<open>percent\<close> are the
  exact values the source approximates, and \<open>toFixed\<close> rounds the exact value.
  Retry counts and delays are \<^typ>\<open>int\<close>, as the source can be given negative
  ones.

  \<^bold>\<open>Recursion and bounds.\<close> No definition needs fuel. The loops over lists
  and trees are structural recursions or folds. \<open>fetchUrl\<close> terminates by the
  measure \<open>nat retries\<close>, \<open>downloadLoop\<close> by \<open>3 - i\<close>, \<open>hashBlocks\<close> by the length
  of the file that is left (for a buffer that has a byte: on an empty buffer
  the loop of the source does not end, and \<open>hashBlocks\<close> has no equation),
  \<open>split_ws\<close> by the length of the line, \<open>digits\<close> by the number. The order
  of the attempts of downloads that run at once is a list of turns; a list
  in which every download has eleven turns finishes them all, ten being the
  retries of \<^verbatim>\<open>fetchUrl\<close>. Runs of the caching protocol are lists of events; \<open>exec\<close> is
  \<open>None\<close> when an event cannot happen (a promise settles twice, a job is run
  from an empty queue), and the theorems that a run returns state
  \<open>exec \<dots> = Some \<dots>\<close>. The installers and the script are total functions:
  every error is a value of their result.

  \<^bold>\<open>Not modelled.\<close> Cancellation tokens: the sources pass them through and
  never read them. The emitter that delivers events to the listeners of the
  widget and the DOM beyond the properties the widget sets. Of the file
  system: the directories inside an archive (its files are written by their
  whole paths, and a write does not ask for the directory); a stamp that is
  a directory; a read that returns less than the file has left;
  \<^verbatim>\<open>path.join\<close> is concatenation with a slash, which it is on the paths the
  installers join. Characters are those below U+0100. Of the streams: what
  a stream emits is the list of its files and errors by position, an
  attempt of a download is one step, and a response of \<^verbatim>\<open>https.get\<close> that
  breaks after it began is the error of its request. Of the compiled copy
  of \<^verbatim>\<open>install-sysroot\<close>, \<^verbatim>\<open>getSha\<close> and
  \<^verbatim>\<open>getVSCodeSysrootChecksum\<close> on a string, which are the statements of
  lines 158--182 again. The commands that \<^verbatim>\<open>install.sh\<close> runs (\<^verbatim>\<open>yarn\<close>,
  \<^verbatim>\<open>curl\<close>, \<^verbatim>\<open>python\<close>, \<^verbatim>\<open>node build/linux/libcxx-fetcher.js\<close>) are their exit
  statuses. The provider is an input: what it answers is an argument of
  every theorem.
\<close>

end
